theory Spec2Isabelle
  imports Main "HOL-Library.Word" "HOL-Library.Sublist" "HOL-Library.Multiset"
begin

section \<open>Common data: bytes, Go slices, errors, panics\<close>

type_synonym byte = "8 word"

text \<open>
  A Go \<^verbatim>\<open>[]byte\<close> is either the nil slice or a window of \<open>len\<close> bytes onto a backing
  array; the bytes of the backing array between \<open>len\<close> and \<open>cap\<close> are kept as \<open>spare\<close>,
  because a slice expression \<^verbatim>\<open>s[lo:hi]\<close> on a slice is checked against \<open>cap\<close>,
  not against \<open>len\<close>.
\<close>

datatype gslice = Nil | Slice "byte list" "byte list"

fun bytes_of :: "gslice \<Rightarrow> byte list" where
  "bytes_of Nil = []"
| "bytes_of (Slice es sp) = es"

fun backing :: "gslice \<Rightarrow> byte list" where
  "backing Nil = []"
| "backing (Slice es sp) = es @ sp"

definition slen :: "gslice \<Rightarrow> nat" where
  "slen s = length (bytes_of s)"

definition scap :: "gslice \<Rightarrow> nat" where
  "scap s = length (backing s)"

text \<open>What a returned \<^verbatim>\<open>[]byte\<close> holds: \<open>None\<close> for nil, the visible bytes otherwise.\<close>

fun returned :: "gslice \<Rightarrow> byte list option" where
  "returned Nil = None"
| "returned (Slice es sp) = Some es"

text \<open>
  Run-time panics: a slice expression out of range (with the offending bound and the
  capacity), and \<^verbatim>\<open>make\<close> of a channel with a negative buffer size.
\<close>

datatype panic = SliceBoundsOutOfRange nat nat | MakechanSizeOutOfRange

text \<open>The slice expression \<^verbatim>\<open>s[lo:hi]\<close> on a slice: in range iff \<open>lo \<le> hi \<le> cap s\<close>.\<close>

definition reslice :: "gslice \<Rightarrow> nat \<Rightarrow> nat \<Rightarrow> panic + byte list" where
  "reslice s lo hi =
     (if hi \<le> scap s \<and> lo \<le> hi then Inr (take (hi - lo) (drop lo (backing s)))
      else Inl (SliceBoundsOutOfRange hi (scap s)))"

text \<open>
  Go errors. \<open>PathError\<close> wraps the error of a failed file operation together with the
  operation and the path, as package os does; \<open>Errorf\<close> is the error made by
  \<^verbatim>\<open>fmt.Errorf\<close> with its rendered message.
\<close>

datatype error =
    ErrNotExist
  | ErrPermission
  | ErrExist
  | ErrSyntax
  | ErrRange
  | SkipDir
  | ErrorString string
  | PathError string string error
  | Errorf string error

section \<open>db.Upd: the multi-value merge\<close>

text \<open>
  The stride scan of \<^verbatim>\<open>Upd\<close> (db.go, the \<^verbatim>\<open>for i := 0; i < len(old); i += vsize\<close>
  loop). \<open>None\<close> stands for a scan that never ends, \<open>Some (Inl p)\<close> for a panic of the
  slice expression \<^verbatim>\<open>old[i:i+vsize]\<close>, \<open>Some (Inr found)\<close> for a normal exit.
  Indices are naturals: \<open>i < len(old)\<close> and \<open>vsize\<close> are lengths of slices in memory, so
  \<open>i + vsize\<close> stays below the range of Go's 64-bit \<^verbatim>\<open>int\<close>.
\<close>

partial_function (option) Upd_scan :: "byte list \<Rightarrow> gslice \<Rightarrow> nat \<Rightarrow> (panic + bool) option" where
  "Upd_scan v old i =
     (if i < slen old then
        (case reslice old i (i + length v) of
           Inl p \<Rightarrow> Some (Inl p)
         | Inr s \<Rightarrow> if v = s then Some (Inr True) else Upd_scan v old (i + length v))
      else Some (Inr False))"

text \<open>
  \<^verbatim>\<open>func Upd(key, value, old []byte) ([]byte, bool, error)\<close>. The result triple is the
  returned slice contents, the changed flag and the error (always nil).
\<close>

definition Upd :: "gslice \<Rightarrow> gslice \<Rightarrow> gslice \<Rightarrow> (panic + (byte list option \<times> bool \<times> error option)) option" where
  "Upd key val old =
     (if old = Nil then Some (Inr (returned val, True, None))
      else
        (case Upd_scan (bytes_of val) old 0 of
           None \<Rightarrow> None
         | Some (Inl p) \<Rightarrow> Some (Inl p)
         | Some (Inr found) \<Rightarrow>
             if found then Some (Inr (None, False, None))
             else Some (Inr (Some (bytes_of old @ bytes_of val), True, None))))"

text \<open>
  The \<open>j\<close>-th stride of width \<open>w\<close> of a byte sequence, as the merge contract speaks of
  it: the bytes from \<open>j * w\<close> up to \<open>j * w + w\<close>.
\<close>

definition stride :: "nat \<Rightarrow> 'a list \<Rightarrow> nat \<Rightarrow> 'a list" where
  "stride w xs j = take w (drop (j * w) xs)"

section \<open>Package os and strconv: the parts the depot code calls\<close>

text \<open>
  \<^verbatim>\<open>os.IsNotExist\<close>: the error is unwrapped once when it is a \<^verbatim>\<open>*PathError\<close> and then
  compared with the not-exist error.
\<close>

fun underlyingError :: "error \<Rightarrow> error" where
  "underlyingError (PathError opn p e) = e"
| "underlyingError e = e"

definition IsNotExist :: "error \<Rightarrow> bool" where
  "IsNotExist err = (underlyingError err = ErrNotExist)"

text \<open>The three methods of \<^verbatim>\<open>os.FileInfo\<close> that the code reads; sizes are \<^verbatim>\<open>int64\<close>.\<close>

record fileinfo =
  Name :: string
  Size :: "64 word"
  IsDir :: bool

text \<open>
  The file system as the generation-file code sees it: the regular files with their
  contents, and for each path the error (if any) with which opening the file, reading
  it, creating it or writing to it fails for a reason other than the file's absence.
\<close>

record filesys =
  files :: "string \<rightharpoonup> string"
  open_err :: "string \<rightharpoonup> error"
  read_err :: "string \<rightharpoonup> error"
  create_err :: "string \<rightharpoonup> error"
  write_err :: "string \<rightharpoonup> error"

text \<open>\<^verbatim>\<open>os.Open\<close>: the contents stand for the open file.\<close>

definition os_Open :: "filesys \<Rightarrow> string \<Rightarrow> error + string" where
  "os_Open fs p =
     (case open_err fs p of
        Some e \<Rightarrow> Inl (PathError ''open'' p e)
      | None \<Rightarrow>
          (case files fs p of
             None \<Rightarrow> Inl (PathError ''open'' p ErrNotExist)
           | Some contents \<Rightarrow> Inr contents))"

text \<open>\<^verbatim>\<open>os.Create\<close>: creates or truncates the file.\<close>

definition os_Create :: "filesys \<Rightarrow> string \<Rightarrow> error + filesys" where
  "os_Create fs p =
     (case create_err fs p of
        Some e \<Rightarrow> Inl (PathError ''open'' p e)
      | None \<Rightarrow> Inr (fs\<lparr>files := (files fs)(p \<mapsto> [])\<rparr>))"

text \<open>\<^verbatim>\<open>strconv.FormatInt(n, 10)\<close>.\<close>

definition digit_char :: "nat \<Rightarrow> char" where
  "digit_char d = ''0123456789'' ! d"

fun format_nat :: "nat \<Rightarrow> string" where
  "format_nat n = (if n < 10 then [digit_char n] else format_nat (n div 10) @ [digit_char (n mod 10)])"

declare format_nat.simps [simp del]

definition FormatInt :: "int \<Rightarrow> string" where
  "FormatInt n = (if n < 0 then CHR ''-'' # format_nat (nat (- n)) else format_nat (nat n))"

text \<open>
  \<^verbatim>\<open>strconv.ParseUint(s, 10, 64)\<close>: the bytes are read from left to right. A byte that is
  not a decimal digit ends the call with 0 and a syntax error; as soon as the value
  would exceed \<open>2^64 - 1\<close> the call ends with that largest value and a range error,
  whatever follows. The empty string is a syntax error.
\<close>

definition is_digit :: "char \<Rightarrow> bool" where
  "is_digit c = (c \<in> set ''0123456789'')"

definition digit_val :: "char \<Rightarrow> nat" where
  "digit_val c = (of_char c :: nat) - 48"

fun ParseUint_loop :: "string \<Rightarrow> nat \<Rightarrow> nat \<times> error option" where
  "ParseUint_loop [] n = (n, None)"
| "ParseUint_loop (c # cs) n =
     (if \<not> is_digit c then (0, Some ErrSyntax)
      else if n \<ge> (2 ^ 64 - 1) div 10 + 1 then (2 ^ 64 - 1, Some ErrRange)
      else if 10 * n + digit_val c > 2 ^ 64 - 1 then (2 ^ 64 - 1, Some ErrRange)
      else ParseUint_loop cs (10 * n + digit_val c))"

definition ParseUint :: "string \<Rightarrow> nat \<times> error option" where
  "ParseUint s = (if s = [] then (0, Some ErrSyntax) else ParseUint_loop s 0)"

text \<open>
  \<^verbatim>\<open>strconv.ParseInt(s, 10, 64)\<close>: an optional sign, then the unsigned value; a syntax
  error is passed on with 0, and a value outside \<^verbatim>\<open>int64\<close> is returned clamped,
  together with a range error.
\<close>

definition ParseInt :: "string \<Rightarrow> int \<times> error option" where
  "ParseInt s =
     (case s of
        [] \<Rightarrow> (0, Some ErrSyntax)
      | c # cs \<Rightarrow>
          (let neg = (c = CHR ''-'');
               ds = (if c = CHR ''+'' \<or> c = CHR ''-'' then cs else s)
           in case ParseUint ds of
                (un, err) \<Rightarrow>
                  if err \<noteq> None \<and> err \<noteq> Some ErrRange then (0, err)
                  else if \<not> neg \<and> int un \<ge> 2 ^ 63 then (2 ^ 63 - 1, Some ErrRange)
                  else if neg \<and> int un > 2 ^ 63 then (- (2 ^ 63), Some ErrRange)
                  else (if neg then - int un else int un, None)))"

section \<open>Package path/filepath: the platform\<close>

text \<open>
  The code is written against \<^verbatim>\<open>path/filepath\<close>, whose behaviour depends on the
  platform. A platform gives the separator, the length of the leading volume name of a
  path (\<^verbatim>\<open>VolumeName(p) = p[:volumeNameLen(p)]\<close>, empty on Unix), and the functions
  \<^verbatim>\<open>Clean\<close>, \<^verbatim>\<open>IsAbs\<close>, \<^verbatim>\<open>Join\<close> and \<^verbatim>\<open>Abs\<close> (which depends on the working directory
  and can fail).
\<close>

record platform =
  Separator :: char
  volumeNameLen :: "string \<Rightarrow> nat"
  Clean :: "string \<Rightarrow> string"
  IsAbs :: "string \<Rightarrow> bool"
  Join :: "string list \<Rightarrow> string"
  Abs :: "string \<Rightarrow> string \<times> error option"

definition VolumeName :: "platform \<Rightarrow> string \<Rightarrow> string" where
  "VolumeName P p = take (volumeNameLen P p) p"

text \<open>The Unix platform, following the Go standard library.\<close>

fun split_on :: "char \<Rightarrow> string \<Rightarrow> string list" where
  "split_on c [] = [[]]"
| "split_on c (x # xs) =
     (if x = c then [] # split_on c xs
      else (case split_on c xs of [] \<Rightarrow> [[x]] | w # ws \<Rightarrow> (x # w) # ws))"

fun join_with :: "string \<Rightarrow> string list \<Rightarrow> string" where
  "join_with s [] = []"
| "join_with s [e] = e"
| "join_with s (e # es) = e @ s @ join_with s es"

text \<open>
  One path element of \<^verbatim>\<open>Clean\<close>; the stack holds the elements kept so far, last one
  first. Empty elements and \<open>.\<close> are dropped; \<open>..\<close> removes the element before it, is
  dropped at the root, and is kept at the start of a relative path.
\<close>

definition clean_step :: "bool \<Rightarrow> string list \<Rightarrow> string \<Rightarrow> string list" where
  "clean_step rooted st e =
     (if e = [] \<or> e = ''.'' then st
      else if e = ''..'' then
        (case st of
           [] \<Rightarrow> if rooted then [] else [''..'']
         | t # ts \<Rightarrow> if t = ''..'' then ''..'' # st else ts)
      else e # st)"

definition unix_Clean :: "string \<Rightarrow> string" where
  "unix_Clean p =
     (if p = [] then ''.''
      else
        (let rooted = (hd p = CHR ''/'');
             body = join_with ''/'' (rev (foldl (clean_step rooted) [] (split_on CHR ''/'' p)))
         in if rooted then CHR ''/'' # body
            else if body = [] then ''.'' else body))"

definition unix_IsAbs :: "string \<Rightarrow> bool" where
  "unix_IsAbs p = (p \<noteq> [] \<and> hd p = CHR ''/'')"

definition unix_Join :: "string list \<Rightarrow> string" where
  "unix_Join elem =
     (case dropWhile (\<lambda>e. e = []) elem of
        [] \<Rightarrow> []
      | es \<Rightarrow> unix_Clean (join_with ''/'' es))"

text \<open>\<^verbatim>\<open>Abs\<close> on Unix; \<open>getwd\<close> is what \<^verbatim>\<open>os.Getwd()\<close> returns.\<close>

definition unix_Abs :: "string \<times> error option \<Rightarrow> string \<Rightarrow> string \<times> error option" where
  "unix_Abs getwd p =
     (if unix_IsAbs p then (unix_Clean p, None)
      else
        (case snd getwd of
           Some err \<Rightarrow> ([], Some err)
         | None \<Rightarrow> (unix_Join [fst getwd, p], None)))"

definition unix :: "string \<times> error option \<Rightarrow> platform" where
  "unix getwd =
     \<lparr> Separator = CHR ''/'', volumeNameLen = (\<lambda>p. 0), Clean = unix_Clean,
       IsAbs = unix_IsAbs, Join = unix_Join, Abs = unix_Abs getwd \<rparr>"

section \<open>Package archive: depot paths and existence test\<close>

text \<open>
  \<^verbatim>\<open>pathFromSha1HexEncoding(root, hexStr, suffix)\<close>. The string slice \<^verbatim>\<open>hexStr[0:8]\<close>
  panics when \<open>hexStr\<close> has fewer than 8 bytes; the four slices of the prefix are then
  in range.
\<close>

definition pathFromSha1HexEncoding :: "platform \<Rightarrow> string \<Rightarrow> string \<Rightarrow> string \<Rightarrow> panic + string" where
  "pathFromSha1HexEncoding P root hexStr sfx =
     (if length hexStr < 8 then Inl (SliceBoundsOutOfRange 8 (length hexStr))
      else
        (let pfx = take 8 hexStr;
             pieces = [root] @ map (\<lambda>i. take 2 (drop (2 * i) pfx)) [0..<4] @ [hexStr @ sfx]
         in Inr (Join P pieces)))"

text \<open>\<^verbatim>\<open>pathExists(path)\<close>; \<open>Lstat\<close> is \<^verbatim>\<open>os.Lstat\<close> on the current file system.\<close>

definition pathExists :: "(string \<Rightarrow> error + fileinfo) \<Rightarrow> string \<Rightarrow> bool \<times> error option" where
  "pathExists Lstat path =
     (case Lstat path of
        Inr info \<Rightarrow> (True, None)
      | Inl err \<Rightarrow> if IsNotExist err then (False, None) else (False, Some err))"

section \<open>Package db: generation file and DAT refresh worker\<close>

definition generationFilename :: string where
  "generationFilename = ''romba-generation''"

definition MaxBatchSize :: int where
  "MaxBatchSize = 10485760"

text \<open>
  \<^verbatim>\<open>WriteGenerationFile(root, size)\<close>. The number goes into a buffered writer; the
  deferred \<^verbatim>\<open>bw.Flush()\<close> writes it to the file and its error is dropped, so a failed
  write leaves the created file empty while the function still returns nil.
\<close>

definition WriteGenerationFile :: "platform \<Rightarrow> filesys \<Rightarrow> string \<Rightarrow> int \<Rightarrow> error option \<times> filesys" where
  "WriteGenerationFile P fs root sz =
     (let p = Join P [root, generationFilename]
      in case os_Create fs p of
           Inl err \<Rightarrow> (Some err, fs)
         | Inr fs1 \<Rightarrow>
             (case write_err fs1 p of
                Some e \<Rightarrow> (None, fs1)
              | None \<Rightarrow> (None, fs1\<lparr>files := (files fs1)(p \<mapsto> FormatInt sz)\<rparr>)))"

text \<open>\<^verbatim>\<open>ReadGenerationFile(root)\<close>, returning Go's pair \<open>(int64, error)\<close> and the file system.\<close>

definition ReadGenerationFile :: "platform \<Rightarrow> filesys \<Rightarrow> string \<Rightarrow> (int \<times> error option) \<times> filesys" where
  "ReadGenerationFile P fs root =
     (let p = Join P [root, generationFilename]
      in case os_Open fs p of
           Inl err \<Rightarrow>
             if IsNotExist err then
               (case WriteGenerationFile P fs root 0 of
                  (Some err', fs') \<Rightarrow> ((0, Some err'), fs')
                | (None, fs') \<Rightarrow> ((0, None), fs'))
             else ((0, Some err), fs)
         | Inr contents \<Rightarrow>
             (case read_err fs p of
                Some err \<Rightarrow> ((0, Some err), fs)
              | None \<Rightarrow> (ParseInt contents, fs)))"

text \<open>
  The \<^verbatim>\<open>RomBatch\<close> interface as the refresh worker uses it: a batch is a state \<open>'b\<close>
  with its methods (\<^verbatim>\<open>IndexRom\<close> is not called by the code modelled here).
\<close>

record ('b, 'dat) RomBatch =
  RomBatch_IndexDat :: "'b \<Rightarrow> 'dat \<Rightarrow> byte list \<Rightarrow> error option \<times> 'b"
  RomBatch_Size :: "'b \<Rightarrow> int"
  RomBatch_Flush :: "'b \<Rightarrow> error option \<times> 'b"
  RomBatch_Close :: "'b \<Rightarrow> error option \<times> 'b"

text \<open>
  \<^verbatim>\<open>refreshWorker.Process(path, size)\<close>; the worker is its field \<^verbatim>\<open>romBatch\<close>, and
  \<open>Parse\<close> is the parser collaborator \<^verbatim>\<open>parser.Parse\<close>, returning the dat and its sha1
  or an error.
\<close>

definition refreshWorker_Process ::
  "('b, 'dat) RomBatch \<Rightarrow> (string \<Rightarrow> error + ('dat \<times> byte list)) \<Rightarrow> 'b \<Rightarrow> string \<Rightarrow> 64 word \<Rightarrow> error option \<times> 'b" where
  "refreshWorker_Process B Parse romBatch path sz =
     (let flushed =
            (if RomBatch_Size B romBatch \<ge> MaxBatchSize then
               (case RomBatch_Flush B romBatch of
                  (Some err, b) \<Rightarrow> (Some (Errorf ''failed to flush: '' err), b)
                | (None, b) \<Rightarrow> (None, b))
             else (None, romBatch))
      in case flushed of
           (Some err, b) \<Rightarrow> (Some err, b)
         | (None, b) \<Rightarrow>
             (case Parse path of
                Inl err \<Rightarrow> (Some err, b)
              | Inr (dat, sha1Bytes) \<Rightarrow> RomBatch_IndexDat B b dat sha1Bytes))"

section \<open>Package worker: common root, directory walks and the worker pool\<close>

text \<open>
  The loop of \<^verbatim>\<open>commonRoot\<close>: the cursor runs over the common prefix of \<open>sa\<close> and \<open>sb\<close>
  and \<open>lastSep\<close> is the index of the last separator passed (\<open>-1\<close> when there is none).
\<close>

function commonRoot_scan :: "char \<Rightarrow> string \<Rightarrow> string \<Rightarrow> nat \<Rightarrow> int \<Rightarrow> nat \<times> int" where
  "commonRoot_scan sep sa sb cursor lastSep =
     (if cursor < length sa \<and> cursor < length sb \<and> sa ! cursor = sb ! cursor then
        commonRoot_scan sep sa sb (cursor + 1) (if sa ! cursor = sep then int cursor else lastSep)
      else (cursor, lastSep))"
  by pat_completeness auto
termination
  by (relation "measure (\<lambda>(sep, sa, sb, cursor, lastSep). length sa - cursor)") auto

declare commonRoot_scan.simps [simp del]

text \<open>
  \<^verbatim>\<open>commonRoot(pa, pb)\<close>. The volume name is a leading part of the cleaned path, so
  \<^verbatim>\<open>pac[len(va):]\<close> is in range; \<open>lastSep\<close> is below the cursor, so the final slice is too.
\<close>

definition commonRoot :: "platform \<Rightarrow> string \<Rightarrow> string \<Rightarrow> string" where
  "commonRoot P pa pb =
     (if pa = [] \<or> pb = [] then []
      else
        (let pac = Clean P pa; pbc = Clean P pb;
             va = VolumeName P pac; vb = VolumeName P pbc
         in if va \<noteq> vb then []
            else
              (let sa = drop (length va) pac; sb = drop (length vb) pbc;
                   na = length sa; nb = length sb;
                   (cursor, lastSep) = commonRoot_scan (Separator P) sa sb 0 (- 1)
               in if cursor = na \<and> na = nb then pac
                  else if lastSep = - 1 then va @ [Separator P]
                  else
                    (let res = take (length va + nat lastSep) pac
                     in if res = [] \<and> Separator P = CHR ''/'' then ''/'' else res))))"

text \<open>
  The directory trees that \<^verbatim>\<open>filepath.Walk\<close> meets: an entry whose \<^verbatim>\<open>Lstat\<close> fails, a
  file that is not a directory, or a directory with the error of reading its names (if
  any) and its entries in the order of their names. Every entry carries its base name.
\<close>

datatype fsnode =
    NoStat string error
  | RegFile string "64 word"
  | Dir string "64 word" "error option" "fsnode list"

fun node_name :: "fsnode \<Rightarrow> string" where
  "node_name (NoStat n e) = n"
| "node_name (RegFile n sz) = n"
| "node_name (Dir n sz rderr kids) = n"

text \<open>
  Whether the walk of a directory stops after the callback (or the walk below it)
  returned \<open>err\<close> for the entry \<open>k\<close>: any error stops it, except \<open>SkipDir\<close> from a
  directory or from an entry without file information.
\<close>

fun walk_stops :: "fsnode \<Rightarrow> error option \<Rightarrow> bool" where
  "walk_stops (RegFile n sz) err = (err \<noteq> None)"
| "walk_stops k err = (err \<noteq> None \<and> err \<noteq> Some SkipDir)"

text \<open>
  A \<^verbatim>\<open>filepath.WalkFunc\<close> with the state it works on: it gets the path, the file
  information (nil when \<^verbatim>\<open>Lstat\<close> failed) and the error met, and returns an error or nil.
\<close>

type_synonym 'st WalkFunc = "'st \<Rightarrow> string \<Rightarrow> fileinfo option \<Rightarrow> error option \<Rightarrow> error option \<times> 'st"

text \<open>
  \<^verbatim>\<open>filepath.Walk\<close> of the Go standard library: the callback is called for the entry and,
  for a directory that could be read and for which the callback returned nil, the
  entries are walked in order.
\<close>

fun walk :: "platform \<Rightarrow> 'st WalkFunc \<Rightarrow> string \<Rightarrow> fsnode \<Rightarrow> 'st \<Rightarrow> error option \<times> 'st"
  and walk_names :: "platform \<Rightarrow> 'st WalkFunc \<Rightarrow> string \<Rightarrow> fsnode list \<Rightarrow> 'st \<Rightarrow> error option \<times> 'st" where
  "walk P fn path (NoStat n e) st = fn st path None (Some e)"
| "walk P fn path (RegFile n sz) st = fn st path (Some \<lparr>Name = n, Size = sz, IsDir = False\<rparr>) None"
| "walk P fn path (Dir n sz rderr kids) st =
     (case fn st path (Some \<lparr>Name = n, Size = sz, IsDir = True\<rparr>) rderr of
        (err1, st1) \<Rightarrow>
          if rderr \<noteq> None \<or> err1 \<noteq> None then (err1, st1)
          else walk_names P fn path kids st1)"
| "walk_names P fn path [] st = (None, st)"
| "walk_names P fn path (k # ks) st =
     (case walk P fn (Join P [path, node_name k]) k st of
        (err, st1) \<Rightarrow>
          if walk_stops k err then (err, st1)
          else walk_names P fn path ks st1)"

definition Walk :: "platform \<Rightarrow> (string \<Rightarrow> fsnode) \<Rightarrow> string \<Rightarrow> 'st WalkFunc \<Rightarrow> 'st \<Rightarrow> error option \<times> 'st" where
  "Walk P fs root fn st =
     (case walk P fn root (fs root) st of
        (err, st1) \<Rightarrow> if err = Some SkipDir then (None, st1) else (err, st1))"

text \<open>
  The collaborator interfaces. A master is a state \<open>'m\<close> with its methods, a worker a
  state \<open>'w\<close> with its methods; the progress tracker is represented by the calls made
  on it.
\<close>

record ('m, 'w) Master =
  Master_Accept :: "'m \<Rightarrow> string \<Rightarrow> bool"
  Master_NewWorker :: "'m \<Rightarrow> int \<Rightarrow> 'w"
  Master_NumWorkers :: "'m \<Rightarrow> int"
  Master_FinishUp :: "'m \<Rightarrow> error option \<times> 'm"
  Master_Start :: "'m \<Rightarrow> error option \<times> 'm"
  Master_Scanned :: "'m \<Rightarrow> 64 word \<Rightarrow> 64 word \<Rightarrow> string \<Rightarrow> 'm"

record 'w Worker =
  Worker_Process :: "'w \<Rightarrow> string \<Rightarrow> 64 word \<Rightarrow> error option \<times> 'w"
  Worker_Close :: "'w \<Rightarrow> error option \<times> 'w"

datatype pt_call =
    SetTotalBytes "64 word"
  | SetTotalFiles "32 word"
  | AddBytesFromFile "64 word"
  | Finished

record countVisitor =
  numBytes :: "64 word"
  numFiles :: "64 word"
  commonRootPath :: string

record workUnit =
  wpath :: string
  wsize :: "64 word"

text \<open>\<^verbatim>\<open>countVisitor.visit\<close>; the visitor's master is the pair \<open>M\<close>, \<open>m\<close>.\<close>

definition countVisitor_visit :: "platform \<Rightarrow> ('m, 'w) Master \<Rightarrow> 'm \<Rightarrow> countVisitor WalkFunc" where
  "countVisitor_visit P M m cv path f err =
     (case f of
        None \<Rightarrow> (None, cv)
      | Some fi \<Rightarrow>
          if Name fi = ''.DS_Store'' then (None, cv)
          else if \<not> IsDir fi \<and> Master_Accept M m path then
            (None, cv\<lparr> numFiles := numFiles cv + 1,
                       numBytes := numBytes cv + Size fi,
                       commonRootPath :=
                         (if commonRootPath cv = [] then path
                          else commonRoot P (commonRootPath cv) path) \<rparr>)
          else (None, cv))"

text \<open>
  \<^verbatim>\<open>scanVisitor.visit\<close>; the state is the sequence of work units sent on the channel
  \<^verbatim>\<open>inwork\<close> so far.
\<close>

definition scanVisitor_visit :: "('m, 'w) Master \<Rightarrow> 'm \<Rightarrow> workUnit list WalkFunc" where
  "scanVisitor_visit M m inwork path f err =
     (case f of
        None \<Rightarrow> (None, inwork)
      | Some fi \<Rightarrow>
          if Name fi = ''.DS_Store'' then (None, inwork)
          else if \<not> IsDir fi \<and> Master_Accept M m path then
            (None, inwork @ [\<lparr>wpath = path, wsize = Size fi\<rparr>])
          else (None, inwork))"

text \<open>
  \<^verbatim>\<open>runSlave\<close>: the loop over the work units this worker receives, with the first
  error \<open>perr\<close>, the calls made on the progress tracker and the worker's state; then the
  worker is closed and \<open>perr\<close> is sent on \<^verbatim>\<open>closeC\<close>.
\<close>

fun runSlave_loop :: "'w Worker \<Rightarrow> workUnit list \<Rightarrow> error option \<Rightarrow> pt_call list \<Rightarrow> 'w \<Rightarrow> error option \<times> pt_call list \<times> 'w" where
  "runSlave_loop W [] perr pt w = (perr, pt, w)"
| "runSlave_loop W (wu # rest) perr pt w =
     (case Worker_Process W w (wpath wu) (wsize wu) of
        (err, w1) \<Rightarrow>
          runSlave_loop W rest
            (if err \<noteq> None then (if perr = None then err else perr) else perr)
            (pt @ [AddBytesFromFile (wsize wu)])
            w1)"

definition runSlave :: "'w Worker \<Rightarrow> 'w \<Rightarrow> workUnit list \<Rightarrow> error option \<times> pt_call list \<times> 'w" where
  "runSlave W w inwork =
     (case runSlave_loop W inwork None [] w of
        (perr, pt, w1) \<Rightarrow>
          (case Worker_Close W w1 of (err, w2) \<Rightarrow> (perr, pt, w2)))"

text \<open>
  The goroutines. Which worker receives the \<open>j\<close>-th unit sent on the unbuffered channel,
  and in which order the workers' exit errors arrive on \<^verbatim>\<open>closeC\<close>, is decided by the
  scheduler: \<open>recv j mod n\<close> is the worker that receives unit \<open>j\<close>, and the workers
  named in \<open>arrival\<close> exit in that order, before the others.
\<close>

definition inbox :: "(nat \<Rightarrow> nat) \<Rightarrow> nat \<Rightarrow> workUnit list \<Rightarrow> nat \<Rightarrow> workUnit list" where
  "inbox recv n items i = map snd (filter (\<lambda>(j, wu). recv j mod n = i) (enumerate 0 items))"

definition arrival_order :: "nat \<Rightarrow> nat list \<Rightarrow> nat list" where
  "arrival_order n arrival =
     remdups (filter (\<lambda>i. i < n) arrival) @ filter (\<lambda>i. i \<notin> set arrival) [0..<n]"

text \<open>The loop of \<^verbatim>\<open>Work\<close> that reads the exit errors from \<^verbatim>\<open>closeC\<close>.\<close>

fun collect :: "error option list \<Rightarrow> error option \<Rightarrow> error option" where
  "collect [] perr = perr"
| "collect (err # rest) perr =
     collect rest (if err \<noteq> None then (if perr = None then err else perr) else perr)"

text \<open>
  What \<^verbatim>\<open>Work\<close> returns is a string and an error. The string is empty, or the failure
  message made from the work name and the worker error, or the final message made from
  the work name and the totals (and the elapsed time, which is left out here).
\<close>

datatype report =
    NoReport
  | FailureReport string error
  | DoneReport string "64 word" "64 word"

datatype ending =
    Returned report "error option"
  | BlockedForever
  | Panicked panic

record 'm outcome =
  ending :: ending
  paths_after :: "string list"
  master_after :: 'm
  tracker_main :: "pt_call list"
  tracker_workers :: "pt_call list list"

text \<open>
  The loop of \<^verbatim>\<open>Work\<close> over \<open>paths\<close> that makes the entries absolute; the list returned
  is the caller's slice when the loop ends or returns early.
\<close>

fun Work_absolutize :: "platform \<Rightarrow> string list \<Rightarrow> string list \<times> error option" where
  "Work_absolutize P [] = ([], None)"
| "Work_absolutize P (name # rest) =
     (if \<not> IsAbs P name then
        (case Abs P name of
           (absname, Some err) \<Rightarrow> (name # rest, Some err)
         | (absname, None) \<Rightarrow>
             (case Work_absolutize P rest of (rest', e) \<Rightarrow> (absname # rest', e)))
      else (case Work_absolutize P rest of (rest', e) \<Rightarrow> (name # rest', e)))"

text \<open>The counting pass and the dispatch pass: one walk for each root, in turn.\<close>

fun Work_count :: "platform \<Rightarrow> (string \<Rightarrow> fsnode) \<Rightarrow> ('m, 'w) Master \<Rightarrow> 'm \<Rightarrow> string list \<Rightarrow> countVisitor \<Rightarrow> error option \<times> countVisitor" where
  "Work_count P fs M m [] cv = (None, cv)"
| "Work_count P fs M m (name # rest) cv =
     (case Walk P fs name (countVisitor_visit P M m) cv of
        (Some err, cv1) \<Rightarrow> (Some err, cv1)
      | (None, cv1) \<Rightarrow> Work_count P fs M m rest cv1)"

fun Work_dispatch :: "platform \<Rightarrow> (string \<Rightarrow> fsnode) \<Rightarrow> ('m, 'w) Master \<Rightarrow> 'm \<Rightarrow> string list \<Rightarrow> workUnit list \<Rightarrow> error option \<times> workUnit list" where
  "Work_dispatch P fs M m [] inwork = (None, inwork)"
| "Work_dispatch P fs M m (name # rest) inwork =
     (case Walk P fs name (scanVisitor_visit M m) inwork of
        (Some err, inwork1) \<Rightarrow> (Some err, inwork1)
      | (None, inwork1) \<Rightarrow> Work_dispatch P fs M m rest inwork1)"

text \<open>
  \<^verbatim>\<open>Work\<close> from the counting pass on, over the rewritten \<open>paths\<close>. With no worker, the
  first send on \<^verbatim>\<open>inwork\<close> blocks for ever; a negative number of workers makes
  \<^verbatim>\<open>make(chan error, n)\<close> panic.
\<close>

definition Work_passes ::
  "platform \<Rightarrow> (string \<Rightarrow> fsnode) \<Rightarrow> ('m, 'w) Master \<Rightarrow> 'w Worker \<Rightarrow> (nat \<Rightarrow> nat) \<Rightarrow> nat list \<Rightarrow>
   string \<Rightarrow> string list \<Rightarrow> 'm \<Rightarrow> 'm outcome" where
  "Work_passes P fs M W recv arrival workname paths m1 =
     (case Work_count P fs M m1 paths \<lparr>numBytes = 0, numFiles = 0, commonRootPath = []\<rparr> of
        (Some err, cv) \<Rightarrow>
          \<lparr>ending = Returned NoReport (Some err), paths_after = paths, master_after = m1,
           tracker_main = [], tracker_workers = []\<rparr>
      | (None, cv) \<Rightarrow>
          (let m2 = Master_Scanned M m1 (numFiles cv) (numBytes cv) (commonRootPath cv);
               pt0 = [SetTotalBytes (numBytes cv), SetTotalFiles (ucast (numFiles cv))];
               n = nat (Master_NumWorkers M m2);
               (werr, items) = Work_dispatch P fs M m2 paths [];
               slaves = map (\<lambda>i. runSlave W (Master_NewWorker M m2 (int i)) (inbox recv n items i)) [0..<n];
               exits = map (\<lambda>i. fst (slaves ! i)) (arrival_order n arrival);
               calls = map (\<lambda>s. fst (snd s)) slaves
           in if Master_NumWorkers M m2 < 0 then
                \<lparr>ending = Panicked MakechanSizeOutOfRange, paths_after = paths, master_after = m2,
                 tracker_main = pt0, tracker_workers = []\<rparr>
              else if n = 0 \<and> items \<noteq> [] then
                \<lparr>ending = BlockedForever, paths_after = paths, master_after = m2,
                 tracker_main = pt0, tracker_workers = []\<rparr>
              else
                (case werr of
                   Some err \<Rightarrow>
                     \<lparr>ending = Returned NoReport (Some err), paths_after = paths, master_after = m2,
                      tracker_main = pt0 @ [Finished], tracker_workers = calls\<rparr>
                 | None \<Rightarrow>
                     (let perr = collect exits None
                      in case Master_FinishUp M m2 of
                           (Some err, m3) \<Rightarrow>
                             \<lparr>ending = Returned NoReport (Some err), paths_after = paths, master_after = m3,
                              tracker_main = pt0 @ [Finished], tracker_workers = calls\<rparr>
                         | (None, m3) \<Rightarrow>
                             (case perr of
                                Some e \<Rightarrow>
                                  \<lparr>ending = Returned (FailureReport workname e) (Some e), paths_after = paths,
                                   master_after = m3, tracker_main = pt0 @ [Finished], tracker_workers = calls\<rparr>
                              | None \<Rightarrow>
                                  \<lparr>ending = Returned (DoneReport workname (numFiles cv) (numBytes cv)) None,
                                   paths_after = paths, master_after = m3,
                                   tracker_main = pt0 @ [Finished], tracker_workers = calls\<rparr>)))))"

text \<open>\<^verbatim>\<open>Work(workname, paths, master)\<close>.\<close>

definition Work ::
  "platform \<Rightarrow> (string \<Rightarrow> fsnode) \<Rightarrow> ('m, 'w) Master \<Rightarrow> 'w Worker \<Rightarrow> (nat \<Rightarrow> nat) \<Rightarrow> nat list \<Rightarrow>
   string \<Rightarrow> string list \<Rightarrow> 'm \<Rightarrow> 'm outcome" where
  "Work P fs M W recv arrival workname paths m =
     (case Master_Start M m of
        (Some err, m1) \<Rightarrow>
          \<lparr>ending = Returned NoReport (Some err), paths_after = paths, master_after = m1,
           tracker_main = [], tracker_workers = []\<rparr>
      | (None, m1) \<Rightarrow>
          (case Work_absolutize P paths of
             (paths1, Some err) \<Rightarrow>
               \<lparr>ending = Returned NoReport (Some err), paths_after = paths1, master_after = m1,
                tracker_main = [], tracker_workers = []\<rparr>
           | (paths1, None) \<Rightarrow> Work_passes P fs M W recv arrival workname paths1 m1))"


section \<open>Specification vocabulary and example collaborators\<close>

text \<open>A path element that \<^verbatim>\<open>Clean\<close> keeps as it is: not empty, without separator, neither \<open>.\<close> nor \<open>..\<close>.\<close>

definition plain :: "string \<Rightarrow> bool" where
  "plain c = (c \<noteq> [] \<and> CHR ''/'' \<notin> set c \<and> c \<noteq> ''.'' \<and> c \<noteq> ''..'')"

text \<open>A string of hexadecimal digits, as the hex encoding of a SHA-1 is.\<close>

definition hex_char :: "char \<Rightarrow> bool" where
  "hex_char c = (c \<in> set ''0123456789abcdefABCDEF'')"

definition is_hex :: "string \<Rightarrow> bool" where
  "is_hex h = list_all hex_char h"

text \<open>
  The part of a path behind its volume name, \<^verbatim>\<open>p[len(VolumeName(p)):]\<close>.
\<close>

definition after_volume :: "platform \<Rightarrow> string \<Rightarrow> string" where
  "after_volume P p = drop (length (VolumeName P p)) p"

text \<open>
  A common directory of two paths: a prefix \<open>r\<close> that is followed by a separator in
  both, so that both paths lie below \<open>r\<close>.
\<close>

definition common_dir :: "char \<Rightarrow> string \<Rightarrow> string \<Rightarrow> string \<Rightarrow> bool" where
  "common_dir sep r sa sb = (prefix (r @ [sep]) sa \<and> prefix (r @ [sep]) sb)"

text \<open>
  The invariant of the loop of \<^verbatim>\<open>commonRoot\<close>: the paths agree before the cursor,
  \<open>lastSep\<close> is \<open>-1\<close> or the index of a separator before the cursor, and no separator
  lies between \<open>lastSep\<close> and the cursor.
\<close>

definition scan_inv :: "char \<Rightarrow> string \<Rightarrow> string \<Rightarrow> nat \<Rightarrow> int \<Rightarrow> bool" where
  "scan_inv sep sa sb c l =
     (c \<le> length sa \<and> c \<le> length sb \<and> (\<forall>i<c. sa ! i = sb ! i) \<and>
      (l = - 1 \<or> (0 \<le> l \<and> nat l < c \<and> sa ! nat l = sep)) \<and>
      (\<forall>i<c. l < int i \<longrightarrow> sa ! i \<noteq> sep))"

text \<open>
  The errors that the successive \<^verbatim>\<open>Process\<close> calls of one worker return on the units
  it receives, and the first error of a sequence of results.
\<close>

fun process_errors :: "'w Worker \<Rightarrow> 'w \<Rightarrow> workUnit list \<Rightarrow> error option list" where
  "process_errors W w [] = []"
| "process_errors W w (wu # rest) =
     (case Worker_Process W w (wpath wu) (wsize wu) of (err, w1) \<Rightarrow> err # process_errors W w1 rest)"

fun first_error :: "error option list \<Rightarrow> error option" where
  "first_error [] = None"
| "first_error (err # rest) = (if err \<noteq> None then err else first_error rest)"

text \<open>
  The collaborators used in the concrete instances below: an \<^verbatim>\<open>os.Lstat\<close> that knows one
  directory and one forbidden path, a batch that counts its size, its flushes and what
  was indexed (and whose flush fails when told so), a parser, and a file system without
  failing operations.
\<close>

definition Lstat_example :: "string \<Rightarrow> error + fileinfo" where
  "Lstat_example p =
     (if p = ''/depot/f5'' then Inr \<lparr>Name = ''f5'', Size = 4096, IsDir = True\<rparr>
      else if p = ''/root/secret'' then Inl (PathError ''lstat'' p ErrPermission)
      else Inl (PathError ''lstat'' p ErrNotExist))"

definition batch_example :: "error option \<Rightarrow> (int \<times> nat \<times> (string \<times> byte list) list, string) RomBatch" where
  "batch_example flush =
     \<lparr> RomBatch_IndexDat = (\<lambda>(sz, flushes, indexed) dat sha1.
          (None, (sz + int (length sha1), flushes, indexed @ [(dat, sha1)]))),
       RomBatch_Size = (\<lambda>(sz, flushes, indexed). sz),
       RomBatch_Flush = (\<lambda>(sz, flushes, indexed).
          (case flush of
             Some err \<Rightarrow> (Some err, (sz, flushes, indexed))
           | None \<Rightarrow> (None, (0, Suc flushes, indexed)))),
       RomBatch_Close = (\<lambda>b. (None, b)) \<rparr>"

definition Parse_example :: "string \<Rightarrow> error + (string \<times> byte list)" where
  "Parse_example path = (if path = [] then Inl (ErrorString ''no such dat'') else Inr (path, [245, 114]))"

definition filesys_example :: "(string \<rightharpoonup> string) \<Rightarrow> filesys" where
  "filesys_example fl =
     \<lparr> files = fl, open_err = Map.empty, read_err = Map.empty,
       create_err = Map.empty, write_err = Map.empty \<rparr>"


text \<open>
  A platform with drive letters as volume names and the backslash as separator, for
  paths that are already clean.
\<close>

definition drives :: platform where
  "drives =
     \<lparr> Separator = CHR 0x5C,
       volumeNameLen = (\<lambda>p. if 2 \<le> length p \<and> p ! 1 = CHR '':'' then 2 else 0),
       Clean = (\<lambda>p. p),
       IsAbs = (\<lambda>p. 3 \<le> length p \<and> p ! 1 = CHR '':'' \<and> p ! 2 = CHR 0x5C),
       Join = join_with [CHR 0x5C],
       Abs = (\<lambda>p. (p, None)) \<rparr>"

text \<open>
  A directory \<open>/roms\<close> with an entry that cannot be examined, a subdirectory that cannot
  be read and two files; every other root is missing. A master that accepts every file,
  with a given number of workers and a given result of \<^verbatim>\<open>FinishUp\<close>; a worker that
  counts its calls and fails on one path.
\<close>

definition tree_example :: "string \<Rightarrow> fsnode" where
  "tree_example root =
     (if root = ''/roms'' then
        Dir ''roms'' 4096 None
          [NoStat ''a.zip'' ErrPermission,
           Dir ''locked'' 4096 (Some ErrPermission) [],
           RegFile ''m.zip'' 7,
           RegFile ''z.zip'' 10]
      else NoStat root ErrNotExist)"

definition master_example :: "error option \<Rightarrow> int \<Rightarrow> (unit, nat) Master" where
  "master_example finish n =
     \<lparr> Master_Accept = (\<lambda>m path. True),
       Master_NewWorker = (\<lambda>m i. 0),
       Master_NumWorkers = (\<lambda>m. n),
       Master_FinishUp = (\<lambda>m. (finish, m)),
       Master_Start = (\<lambda>m. (None, m)),
       Master_Scanned = (\<lambda>m nfiles nbytes root. m) \<rparr>"

definition worker_example :: "string \<Rightarrow> nat Worker" where
  "worker_example bad =
     \<lparr> Worker_Process = (\<lambda>w path sz. (if path = bad then Some (ErrorString ''bad rom'') else None, Suc w)),
       Worker_Close = (\<lambda>w. (None, w)) \<rparr>"

section \<open>The multi-value merge: results\<close>

lemma Upd_scan_past_end:
  "slen old \<le> i \<Longrightarrow> Upd_scan v old i = Some (Inr False)"
  by (subst Upd_scan.simps) simp

text \<open>The scan ends on every input: an empty value equals the empty stride at once.\<close>

lemma Upd_scan_returns: "\<exists>r. Upd_scan v old i = Some r"
proof (induction "slen old - i" arbitrary: i rule: less_induct)
  case less
  show ?case
  proof (cases "i < slen old")
    case False
    then show ?thesis by (subst Upd_scan.simps) simp
  next
    case inb: True
    show ?thesis
    proof (cases "reslice old i (i + length v)")
      case (Inl p)
      with inb show ?thesis by (subst Upd_scan.simps) simp
    next
      case (Inr s)
      show ?thesis
      proof (cases "v = s")
        case True
        with inb Inr show ?thesis by (subst Upd_scan.simps) simp
      next
        case False
        have "length v \<noteq> 0"
        proof
          assume "length v = 0"
          with Inr have "s = []" by (auto simp: reslice_def split: if_splits)
          with \<open>length v = 0\<close> False show False by simp
        qed
        with inb have "slen old - (i + length v) < slen old - i" by arith
        from less[OF this] obtain r where "Upd_scan v old (i + length v) = Some r" by blast
        with inb Inr False show ?thesis by (subst Upd_scan.simps) simp
      qed
    qed
  qed
qed

lemma Upd_scan_empty_value:
  assumes "0 < slen old"
  shows "Upd_scan [] old 0 = Some (Inr True)"
  using assms by (subst Upd_scan.simps) (simp add: reslice_def)

text \<open>On a concatenation of items of the value's width, the scan is a membership test.\<close>

lemma Upd_scan_items:
  assumes "\<forall>it\<in>set items. length it = length v" and "0 < length v"
  shows "Upd_scan v (Slice (pre @ concat items) sp) (length pre) = Some (Inr (v \<in> set items))"
  using assms(1)
proof (induction items arbitrary: pre)
  case Nil
  show ?case by (subst Upd_scan.simps) (simp add: slen_def)
next
  case (Cons it items)
  have len: "length it = length v" using Cons.prems by simp
  have inb: "length pre < slen (Slice (pre @ concat (it # items)) sp)"
    using len assms(2) by (simp add: slen_def)
  have rs: "reslice (Slice (pre @ concat (it # items)) sp) (length pre) (length pre + length v) = Inr it"
    using len by (simp add: reslice_def scap_def)
  have IH: "Upd_scan v (Slice ((pre @ it) @ concat items) sp) (length (pre @ it)) = Some (Inr (v \<in> set items))"
    using Cons.IH[of "pre @ it"] Cons.prems by simp
  show ?case
    using inb rs IH len by (subst Upd_scan.simps) auto
qed

lemma drop_concat_equal_width:
  "\<forall>it\<in>set items. length it = w \<Longrightarrow> drop (j * w) (concat items) = concat (drop j items)"
proof (induction items arbitrary: j)
  case Nil
  then show ?case by simp
next
  case (Cons it items)
  then show ?case by (cases j) auto
qed

lemma length_concat_equal_width:
  "\<forall>it\<in>set items. length it = w \<Longrightarrow> length (concat items) = length items * w"
  by (induction items) auto

lemma stride_is_item:
  assumes "\<forall>it\<in>set items. length it = w" and "j < length items"
  shows "stride w (concat items) j = items ! j"
proof -
  from assms(2) obtain x xs where d: "drop j items = x # xs" and x: "x = items ! j"
    by (metis Cons_nth_drop_Suc)
  have "x \<in> set items" using x assms(2) by simp
  hence "length x = w" using assms(1) by simp
  thus ?thesis using drop_concat_equal_width[OF assms(1), of j] d x by (simp add: stride_def)
qed

lemma stride_iff_item:
  assumes "\<forall>it\<in>set items. length it = w" and "0 < w"
  shows "(\<exists>j. j * w < length (concat items) \<and> stride w (concat items) j = v) \<longleftrightarrow> v \<in> set items"
proof -
  have L: "length (concat items) = length items * w" by (rule length_concat_equal_width[OF assms(1)])
  have jlt: "\<And>j. j * w < length items * w \<longleftrightarrow> j < length items" using assms(2) by simp
  show ?thesis
    unfolding L jlt
    using stride_is_item[OF assms(1)] by (metis in_set_conv_nth)
qed

text \<open>
  When the length of \<open>old\<close> is a multiple of the width, the scan never reads past
  \<open>len(old)\<close>: it gives the same answer, and no panic, when \<open>old\<close> has no spare capacity.
\<close>

lemma Upd_scan_multiple:
  assumes "0 < length v" and "length v dvd (length es - i)" and "i \<le> length es"
  shows "\<exists>found. Upd_scan v (Slice es sp) i = Some (Inr found) \<and> Upd_scan v (Slice es []) i = Some (Inr found)"
  using assms(2,3)
proof (induction "length es - i" arbitrary: i rule: less_induct)
  case less
  show ?case
  proof (cases "i < length es")
    case False
    then show ?thesis
      by (auto simp add: Upd_scan_past_end slen_def)
  next
    case True
    have "length v \<le> length es - i"
      using less.prems(1) True by (intro dvd_imp_le) auto
    with True have fit: "i + length v \<le> length es" by arith
    have r1: "reslice (Slice es sp) i (i + length v) = Inr (take (length v) (drop i es))"
      using fit by (simp add: reslice_def scap_def)
    have r2: "reslice (Slice es []) i (i + length v) = Inr (take (length v) (drop i es))"
      using fit by (simp add: reslice_def scap_def)
    show ?thesis
    proof (cases "v = take (length v) (drop i es)")
      case same: True
      have "Upd_scan v (Slice es sp) i = Some (Inr True)"
        using True r1 same by (subst Upd_scan.simps) (simp add: slen_def)
      moreover have "Upd_scan v (Slice es []) i = Some (Inr True)"
        using True r2 same by (subst Upd_scan.simps) (simp add: slen_def)
      ultimately show ?thesis by blast
    next
      case diff: False
      have "length es - (i + length v) = (length es - i) - length v" by arith
      hence d: "length v dvd length es - (i + length v)"
        using dvd_diff_nat[OF less.prems(1) dvd_refl] by simp
      have m: "length es - (i + length v) < length es - i"
        using True assms(1) by arith
      from less.hyps[OF m d fit] obtain found where
        f: "Upd_scan v (Slice es sp) (i + length v) = Some (Inr found)"
           "Upd_scan v (Slice es []) (i + length v) = Some (Inr found)" by blast
      have "Upd_scan v (Slice es sp) i = Some (Inr found)"
        using True r1 diff f(1) by (subst Upd_scan.simps) (simp add: slen_def)
      moreover have "Upd_scan v (Slice es []) i = Some (Inr found)"
        using True r2 diff f(2) by (subst Upd_scan.simps) (simp add: slen_def)
      ultimately show ?thesis by blast
    qed
  qed
qed

text \<open>
  When it is not a multiple and no complete stride matches, the scan reaches the last,
  incomplete stride, whose upper bound lies past \<open>len(old)\<close>.
\<close>

lemma Upd_scan_ragged:
  assumes w: "0 < length v"
    and nd: "\<not> length v dvd length es"
    and nomatch: "\<forall>j. j * length v + length v \<le> length es \<longrightarrow> stride (length v) es j \<noteq> v"
    and k: "k * length v \<le> length es"
  shows "Upd_scan v (Slice es sp) (k * length v) =
     (let i = (length es div length v) * length v in
      if length es + length sp < i + length v
      then Some (Inl (SliceBoundsOutOfRange (i + length v) (length es + length sp)))
      else Some (Inr (v = take (length v) (drop i (es @ sp)))))"
  using k
proof (induction "length es - k * length v" arbitrary: k rule: less_induct)
  case less
  let ?w = "length v"
  have ne: "k * ?w \<noteq> length es" using nd by (metis dvd_triv_right)
  with less.prems have inb: "k * ?w < length es" by simp
  show ?case
  proof (cases "k * ?w + ?w \<le> length es")
    case True
    have r: "reslice (Slice es sp) (k * ?w) (k * ?w + ?w) = Inr (stride ?w es k)"
      using True by (simp add: reslice_def scap_def stride_def)
    have nm: "stride ?w es k \<noteq> v" using nomatch True by blast
    have "Suc k * ?w = k * ?w + ?w" by simp
    hence m: "length es - Suc k * ?w < length es - k * ?w" using inb w by arith
    have "Upd_scan v (Slice es sp) (k * ?w) = Upd_scan v (Slice es sp) (Suc k * ?w)"
      using inb r nm by (subst Upd_scan.simps) (auto simp: slen_def add.commute)
    also have "\<dots> = (let i = (length es div length v) * length v in
      if length es + length sp < i + length v
      then Some (Inl (SliceBoundsOutOfRange (i + length v) (length es + length sp)))
      else Some (Inr (v = take (length v) (drop i (es @ sp)))))"
      using less.hyps[OF m] True by simp
    finally show ?thesis .
  next
    case False
    hence "length es < ?w * Suc k" by (simp add: algebra_simps)
    moreover have "?w * k \<le> length es" using inb by (simp add: algebra_simps)
    ultimately have kk: "length es div ?w = k" by (rule div_nat_eqI[rotated])
    show ?thesis
    proof (cases "length es + length sp < k * ?w + ?w")
      case True
      then show ?thesis using inb kk
        by (subst Upd_scan.simps) (simp add: slen_def reslice_def scap_def)
    next
      case fits: False
      have past: "slen (Slice es sp) \<le> k * ?w + ?w" using False by (simp add: slen_def)
      show ?thesis using inb kk fits Upd_scan_past_end[OF past, of v]
        by (subst Upd_scan.simps) (auto simp: slen_def reslice_def scap_def Let_def)
    qed
  qed
qed

lemma ragged_last_stride_past_end:
  assumes "0 < (w::nat)"
  shows "n < (n div w) * w + w"
proof -
  have "n = (n div w) * w + n mod w" by simp
  moreover have "n mod w < w" using assms by simp
  ultimately show ?thesis by linarith
qed

text \<open>
  Claim C1. The merge \<^verbatim>\<open>Upd(key, newItem, existing)\<close>: when \<open>existing\<close> is absent (nil), the
  result is \<open>newItem\<close> with changed = true. When \<open>existing\<close> is a concatenation of items
  that all have the width of \<open>newItem\<close>: if some stride of \<open>existing\<close> equals \<open>newItem\<close>, the
  merge reports no change (it returns nil and false, and writes to no slice, so \<open>existing\<close>
  is as it was); if no stride equals \<open>newItem\<close>, the result is \<open>existing\<close> followed by
  \<open>newItem\<close> with changed = true. For a positive width, some stride equals \<open>newItem\<close>
  exactly when \<open>newItem\<close> is one of the items.
\<close>

theorem Upd_merge:
  assumes width: "\<forall>it\<in>set items. length it = length (bytes_of val)"
  shows "Upd key val Nil = Some (Inr (returned val, True, None)) \<and>
         ((\<exists>j. j * length (bytes_of val) < length (concat items) \<and>
               stride (length (bytes_of val)) (concat items) j = bytes_of val) \<longrightarrow>
          Upd key val (Slice (concat items) sp) = Some (Inr (None, False, None))) \<and>
         ((\<forall>j. j * length (bytes_of val) < length (concat items) \<longrightarrow>
               stride (length (bytes_of val)) (concat items) j \<noteq> bytes_of val) \<longrightarrow>
          Upd key val (Slice (concat items) sp) = Some (Inr (Some (concat items @ bytes_of val), True, None))) \<and>
         (0 < length (bytes_of val) \<longrightarrow>
          ((\<exists>j. j * length (bytes_of val) < length (concat items) \<and>
                stride (length (bytes_of val)) (concat items) j = bytes_of val)
           \<longleftrightarrow> bytes_of val \<in> set items))"
proof -
  let ?v = "bytes_of val"
  let ?hit = "\<exists>j. j * length ?v < length (concat items) \<and> stride (length ?v) (concat items) j = ?v"
  have absent: "Upd key val Nil = Some (Inr (returned val, True, None))"
    by (simp add: Upd_def)
  have scan: "Upd_scan ?v (Slice (concat items) sp) 0 = Some (Inr ?hit)"
  proof (cases "0 < length ?v")
    case True
    have "Upd_scan ?v (Slice ([] @ concat items) sp) (length ([]::byte list)) = Some (Inr (?v \<in> set items))"
      by (rule Upd_scan_items[OF width True])
    thus ?thesis using stride_iff_item[OF width True, of ?v] by simp
  next
    case False
    hence "concat items = []" using width by auto
    moreover from False have "\<not> ?hit" using \<open>concat items = []\<close> by simp
    ultimately show ?thesis by (simp add: Upd_scan_past_end slen_def)
  qed
  have found: "?hit \<longrightarrow> Upd key val (Slice (concat items) sp) = Some (Inr (None, False, None))"
    using scan by (simp add: Upd_def)
  have fresh: "(\<forall>j. j * length ?v < length (concat items) \<longrightarrow> stride (length ?v) (concat items) j \<noteq> ?v) \<longrightarrow>
         Upd key val (Slice (concat items) sp) = Some (Inr (Some (concat items @ ?v), True, None))"
    using scan by (auto simp add: Upd_def)
  have member: "0 < length ?v \<longrightarrow> (?hit \<longleftrightarrow> ?v \<in> set items)"
    using stride_iff_item[OF width, of ?v] by blast
  from absent found fresh member show ?thesis by blast
qed


text \<open>An instance with two items of width 2: one value that is present, one that is new.\<close>

theorem Upd_merge_witness:
  "concat [[1, 2], [3, 4 :: byte]] = [1, 2, 3, 4] \<and>
   Upd Nil (Slice [3, 4] []) (Slice [1, 2, 3, 4] []) = Some (Inr (None, False, None)) \<and>
   Upd Nil (Slice [5, 6] []) (Slice [1, 2, 3, 4] []) = Some (Inr (Some [1, 2, 3, 4, 5, 6], True, None))"
proof -
  have w1: "\<forall>it\<in>set [[1, 2], [3, 4 :: byte]]. length it = length (bytes_of (Slice [3, 4] []))" by simp
  have w2: "\<forall>it\<in>set [[1, 2], [3, 4 :: byte]]. length it = length (bytes_of (Slice [5, 6] []))" by simp
  have a: "Upd Nil (Slice [3, 4] []) (Slice [1, 2, 3, 4] []) = Some (Inr (None, False, None))"
    using Upd_merge[OF w1, of Nil "[]"] by simp
  have b: "Upd Nil (Slice [5, 6] []) (Slice [1, 2, 3, 4] []) = Some (Inr (Some [1, 2, 3, 4, 5, 6], True, None))"
    using Upd_merge[OF w2, of Nil "[]"] by simp
  from a b show ?thesis by simp
qed


text \<open>
  Claim C9, as the code has it. \<^verbatim>\<open>Upd\<close> returns on every input: the scan always ends.
  With an empty value it never panics either, and when \<open>old\<close> is not empty the first
  stride \<^verbatim>\<open>old[0:0]\<close> equals the value, so the result is "no change". With a value of positive length whose length
  divides \<open>len(old)\<close>, every slice the scan takes lies within \<open>len(old)\<close>: the call does
  not panic, and gives the same result, when \<open>old\<close> has no spare capacity at all. When
  the length does not divide \<open>len(old)\<close> and no complete stride equals the value, the
  upper bound \<open>hi\<close> of the last stride lies past \<open>len(old)\<close>; the slice expression panics
  when \<open>hi\<close> also exceeds \<open>cap(old)\<close>, and otherwise compares the value with bytes of
  the backing array beyond \<open>len(old)\<close>.
\<close>

theorem Upd_totality:
  "(\<exists>r. Upd key val old = Some r) \<and>
   (bytes_of val = [] \<longrightarrow> (\<exists>res. Upd key val old = Some (Inr res))) \<and>
   (bytes_of val = [] \<and> es \<noteq> [] \<longrightarrow>
      Upd key val (Slice es sp) = Some (Inr (None, False, None))) \<and>
   (0 < length (bytes_of val) \<and> length (bytes_of val) dvd length es \<longrightarrow>
      (\<exists>res. Upd key val (Slice es sp) = Some (Inr res) \<and> Upd key val (Slice es []) = Some (Inr res))) \<and>
   (0 < length (bytes_of val) \<and> \<not> length (bytes_of val) dvd length es \<and>
    (\<forall>j. j * length (bytes_of val) + length (bytes_of val) \<le> length es \<longrightarrow>
         stride (length (bytes_of val)) es j \<noteq> bytes_of val) \<longrightarrow>
      (let hi = (length es div length (bytes_of val)) * length (bytes_of val) + length (bytes_of val)
       in length es < hi \<and>
          Upd key val (Slice es sp) =
            (if length es + length sp < hi
             then Some (Inl (SliceBoundsOutOfRange hi (length es + length sp)))
             else if bytes_of val = take (length (bytes_of val)) (drop (hi - length (bytes_of val)) (es @ sp))
             then Some (Inr (None, False, None))
             else Some (Inr (Some (es @ bytes_of val), True, None)))))"
proof -
  let ?v = "bytes_of val"
  have total: "\<exists>r. Upd key val old = Some r"
  proof -
    obtain r where "Upd_scan ?v old 0 = Some r" using Upd_scan_returns by blast
    thus ?thesis by (cases r) (auto simp: Upd_def)
  qed
  have empty: "?v = [] \<and> es \<noteq> [] \<longrightarrow> Upd key val (Slice es sp) = Some (Inr (None, False, None))"
  proof
    assume a: "?v = [] \<and> es \<noteq> []"
    hence "0 < slen (Slice es sp)" by (simp add: slen_def)
    from Upd_scan_empty_value[OF this] a show "Upd key val (Slice es sp) = Some (Inr (None, False, None))"
      by (simp add: Upd_def)
  qed
  have no_width: "?v = [] \<longrightarrow> (\<exists>res. Upd key val old = Some (Inr res))"
  proof
    assume v: "?v = []"
    show "\<exists>res. Upd key val old = Some (Inr res)"
    proof (cases old)
      case Nil
      then show ?thesis by (auto simp add: Upd_def)
    next
      case (Slice bs cs)
      show ?thesis
      proof (cases "bs = []")
        case True
        hence "Upd_scan ?v old 0 = Some (Inr False)"
          using Slice by (simp add: Upd_scan_past_end slen_def)
        thus ?thesis using Slice by (auto simp add: Upd_def)
      next
        case False
        hence "0 < slen old" using Slice by (simp add: slen_def)
        from Upd_scan_empty_value[OF this] v show ?thesis using Slice by (auto simp add: Upd_def)
      qed
    qed
  qed
  have multiple: "0 < length ?v \<and> length ?v dvd length es \<longrightarrow>
      (\<exists>res. Upd key val (Slice es sp) = Some (Inr res) \<and> Upd key val (Slice es []) = Some (Inr res))"
  proof
    assume a: "0 < length ?v \<and> length ?v dvd length es"
    hence "length ?v dvd length es - 0" by simp
    from Upd_scan_multiple[OF conjunct1[OF a] this, of sp] obtain found where
      "Upd_scan ?v (Slice es sp) 0 = Some (Inr found)" "Upd_scan ?v (Slice es []) 0 = Some (Inr found)"
      by auto
    thus "\<exists>res. Upd key val (Slice es sp) = Some (Inr res) \<and> Upd key val (Slice es []) = Some (Inr res)"
      by (auto simp add: Upd_def)
  qed
  have ragged: "0 < length ?v \<and> \<not> length ?v dvd length es \<and>
    (\<forall>j. j * length ?v + length ?v \<le> length es \<longrightarrow> stride (length ?v) es j \<noteq> ?v) \<longrightarrow>
      (let hi = (length es div length ?v) * length ?v + length ?v
       in length es < hi \<and>
          Upd key val (Slice es sp) =
            (if length es + length sp < hi
             then Some (Inl (SliceBoundsOutOfRange hi (length es + length sp)))
             else if ?v = take (length ?v) (drop (hi - length ?v) (es @ sp))
             then Some (Inr (None, False, None))
             else Some (Inr (Some (es @ ?v), True, None))))"
  proof
    assume a: "0 < length ?v \<and> \<not> length ?v dvd length es \<and>
      (\<forall>j. j * length ?v + length ?v \<le> length es \<longrightarrow> stride (length ?v) es j \<noteq> ?v)"
    hence w: "0 < length ?v" and nd: "\<not> length ?v dvd length es"
      and nm: "\<forall>j. j * length ?v + length ?v \<le> length es \<longrightarrow> stride (length ?v) es j \<noteq> ?v"
      by blast+
    have s: "Upd_scan ?v (Slice es sp) (0 * length ?v) =
       (let i = (length es div length ?v) * length ?v in
        if length es + length sp < i + length ?v
        then Some (Inl (SliceBoundsOutOfRange (i + length ?v) (length es + length sp)))
        else Some (Inr (?v = take (length ?v) (drop i (es @ sp)))))"
      by (rule Upd_scan_ragged[OF w nd nm]) simp
    have past: "length es < (length es div length ?v) * length ?v + length ?v"
      by (rule ragged_last_stride_past_end[OF w])
    show "let hi = (length es div length ?v) * length ?v + length ?v
       in length es < hi \<and>
          Upd key val (Slice es sp) =
            (if length es + length sp < hi
             then Some (Inl (SliceBoundsOutOfRange hi (length es + length sp)))
             else if ?v = take (length ?v) (drop (hi - length ?v) (es @ sp))
             then Some (Inr (None, False, None))
             else Some (Inr (Some (es @ ?v), True, None)))"
      using s past by (simp add: Upd_def Let_def)
  qed
  from total no_width empty multiple ragged show ?thesis by blast
qed


text \<open>
  An empty value and a non-empty \<open>old\<close>: the precondition \<open>len(value) > 0\<close> fails, and
  \<^verbatim>\<open>Upd\<close> returns "no change" all the same.
\<close>

theorem Upd_totality_counterexample:
  "\<not> 0 < length (bytes_of (Slice [] [])) \<and>
   Upd Nil (Slice [] []) (Slice [7] []) = Some (Inr (None, False, None))"
  by (simp add: Upd_def Upd_scan.simps reslice_def slen_def scap_def)


text \<open>
  Instances: an empty value; a length that is a multiple of the width; a ragged length
  without and with spare capacity behind \<open>old\<close>.
\<close>

theorem Upd_totality_witness:
  "Upd Nil (Slice [] []) (Slice [7] []) = Some (Inr (None, False, None)) \<and>
   (\<exists>res. Upd Nil (Slice [1, 2] []) (Slice [3, 4, 1, 2] [9]) = Some (Inr res) \<and>
          Upd Nil (Slice [1, 2] []) (Slice [3, 4, 1, 2] []) = Some (Inr res)) \<and>
   Upd Nil (Slice [1, 2] []) (Slice [3, 4, 1] []) = Some (Inl (SliceBoundsOutOfRange 4 3)) \<and>
   Upd Nil (Slice [1, 2] []) (Slice [3, 4, 1] [2]) = Some (Inr (None, False, None))"
proof -
  let ?v = "bytes_of (Slice [1, 2] [])"
  have l1: "length ?v = 2" by simp
  have l2: "length [3, 4, 1, 2 :: byte] = 4" by simp
  have l3: "length [3, 4, 1 :: byte] = 3" by simp
  have nm: "\<forall>j. j * length ?v + length ?v \<le> length [3, 4, 1 :: byte] \<longrightarrow>
         stride (length ?v) [3, 4, 1 :: byte] j \<noteq> ?v"
    unfolding l1 l3
  proof (intro allI impI)
    fix j :: nat
    assume "j * 2 + 2 \<le> 3"
    hence "j = 0" by simp
    thus "stride 2 [3, 4, 1 :: byte] j \<noteq> ?v"
      by (simp add: stride_def)
  qed
  have a: "Upd Nil (Slice [] []) (Slice [7] []) = Some (Inr (None, False, None))"
    using Upd_totality[of Nil "Slice [] []" Nil "[7]" "[]"] by simp
  have b: "\<exists>res. Upd Nil (Slice [1, 2] []) (Slice [3, 4, 1, 2] [9]) = Some (Inr res) \<and>
          Upd Nil (Slice [1, 2] []) (Slice [3, 4, 1, 2] []) = Some (Inr res)"
  proof -
    have h: "0 < length ?v \<and> length ?v dvd length [3, 4, 1, 2 :: byte]"
      unfolding l1 l2 by simp
    from Upd_totality[of Nil "Slice [1, 2] []" Nil "[3, 4, 1, 2]" "[9]"] h show ?thesis by blast
  qed
  have h: "0 < length ?v \<and> \<not> length ?v dvd length [3, 4, 1 :: byte] \<and>
      (\<forall>j. j * length ?v + length ?v \<le> length [3, 4, 1 :: byte] \<longrightarrow>
           stride (length ?v) [3, 4, 1 :: byte] j \<noteq> ?v)"
    using nm unfolding l1 l3 by simp
  have c: "Upd Nil (Slice [1, 2] []) (Slice [3, 4, 1] []) = Some (Inl (SliceBoundsOutOfRange 4 3))"
  proof -
    from Upd_totality[of Nil "Slice [1, 2] []" Nil "[3, 4, 1]" "[]"] h
    have "let hi = (length [3, 4, 1 :: byte] div length ?v) * length ?v + length ?v
       in length [3, 4, 1 :: byte] < hi \<and>
          Upd Nil (Slice [1, 2] []) (Slice [3, 4, 1] []) =
            (if length [3, 4, 1 :: byte] + length ([] :: byte list) < hi
             then Some (Inl (SliceBoundsOutOfRange hi (length [3, 4, 1 :: byte] + length ([] :: byte list))))
             else if ?v = take (length ?v) (drop (hi - length ?v) ([3, 4, 1] @ []))
             then Some (Inr (None, False, None))
             else Some (Inr (Some ([3, 4, 1] @ ?v), True, None)))"
      by blast
    thus ?thesis unfolding l1 l3 by (simp add: Let_def)
  qed
  have d: "Upd Nil (Slice [1, 2] []) (Slice [3, 4, 1] [2]) = Some (Inr (None, False, None))"
  proof -
    have l4: "length [2 :: byte] = 1" by simp
    from Upd_totality[of Nil "Slice [1, 2] []" Nil "[3, 4, 1]" "[2]"] h
    have "let hi = (length [3, 4, 1 :: byte] div length ?v) * length ?v + length ?v
       in length [3, 4, 1 :: byte] < hi \<and>
          Upd Nil (Slice [1, 2] []) (Slice [3, 4, 1] [2]) =
            (if length [3, 4, 1 :: byte] + length [2 :: byte] < hi
             then Some (Inl (SliceBoundsOutOfRange hi (length [3, 4, 1 :: byte] + length [2 :: byte])))
             else if ?v = take (length ?v) (drop (hi - length ?v) ([3, 4, 1] @ [2]))
             then Some (Inr (None, False, None))
             else Some (Inr (Some ([3, 4, 1] @ ?v), True, None)))"
      by blast
    thus ?thesis unfolding l1 l3 l4 by (simp add: Let_def)
  qed
  from a b c d show ?thesis by blast
qed


section \<open>Existence test\<close>

text \<open>
  Claim C8. \<^verbatim>\<open>pathExists(path)\<close> returns (true, nil) when \<^verbatim>\<open>os.Lstat\<close> succeeds, (false, nil)
  when it fails with an error that \<^verbatim>\<open>os.IsNotExist\<close> accepts, and (false, err) for every
  other error; an error it returns is never a not-exist error.
\<close>

theorem pathExists_cases:
  "(\<forall>info. Lstat path = Inr info \<longrightarrow> pathExists Lstat path = (True, None)) \<and>
   (\<forall>err. Lstat path = Inl err \<and> IsNotExist err \<longrightarrow> pathExists Lstat path = (False, None)) \<and>
   (\<forall>err. Lstat path = Inl err \<and> \<not> IsNotExist err \<longrightarrow> pathExists Lstat path = (False, Some err)) \<and>
   (\<forall>err. snd (pathExists Lstat path) = Some err \<longrightarrow> \<not> IsNotExist err)"
  by (auto simp: pathExists_def split: sum.splits if_splits)

text \<open>A path that is present, one that is missing, and one that may not be read.\<close>

theorem pathExists_cases_witness:
  "pathExists Lstat_example ''/depot/f5'' = (True, None) \<and>
   pathExists Lstat_example ''/depot/00'' = (False, None) \<and>
   pathExists Lstat_example ''/root/secret'' = (False, Some (PathError ''lstat'' ''/root/secret'' ErrPermission))"
proof -
  have a: "pathExists Lstat_example ''/depot/f5'' = (True, None)"
    using pathExists_cases[of Lstat_example "''/depot/f5''"] by (simp add: Lstat_example_def)
  have b: "pathExists Lstat_example ''/depot/00'' = (False, None)"
    using pathExists_cases[of Lstat_example "''/depot/00''"]
    by (simp add: Lstat_example_def IsNotExist_def)
  have c: "pathExists Lstat_example ''/root/secret'' = (False, Some (PathError ''lstat'' ''/root/secret'' ErrPermission))"
    using pathExists_cases[of Lstat_example "''/root/secret''"]
    by (simp add: Lstat_example_def IsNotExist_def)
  from a b c show ?thesis by simp
qed

section \<open>The DAT refresh worker\<close>

text \<open>
  Claim C6, as the code has it. \<^verbatim>\<open>MaxBatchSize\<close> is 10485760. \<^verbatim>\<open>Process\<close> flushes the batch
  when its size at the start of the call is at least \<^verbatim>\<open>MaxBatchSize\<close> (a batch whose size
  is exactly the cap is flushed) and not when it is below; a failed flush is returned,
  wrapped, without parsing. Otherwise the parser is invoked, and when it succeeds
  \<^verbatim>\<open>IndexDat\<close> is called with the returned dat and sha1, on the batch as the flush left
  it.
\<close>

theorem refreshWorker_Process_flush:
  "MaxBatchSize = 10485760 \<and>
   (RomBatch_Size B b \<ge> MaxBatchSize \<and> RomBatch_Flush B b = (Some err, b') \<longrightarrow>
      refreshWorker_Process B Parse b path sz = (Some (Errorf ''failed to flush: '' err), b')) \<and>
   (RomBatch_Size B b \<ge> MaxBatchSize \<and> RomBatch_Flush B b = (None, b') \<and> Parse path = Inl err \<longrightarrow>
      refreshWorker_Process B Parse b path sz = (Some err, b')) \<and>
   (RomBatch_Size B b \<ge> MaxBatchSize \<and> RomBatch_Flush B b = (None, b') \<and> Parse path = Inr (dat, sha1) \<longrightarrow>
      refreshWorker_Process B Parse b path sz = RomBatch_IndexDat B b' dat sha1) \<and>
   (RomBatch_Size B b < MaxBatchSize \<and> Parse path = Inl err \<longrightarrow>
      refreshWorker_Process B Parse b path sz = (Some err, b)) \<and>
   (RomBatch_Size B b < MaxBatchSize \<and> Parse path = Inr (dat, sha1) \<longrightarrow>
      refreshWorker_Process B Parse b path sz = RomBatch_IndexDat B b dat sha1)"
  by (simp add: refreshWorker_Process_def MaxBatchSize_def)

text \<open>A batch of exactly 10485760 bytes is flushed: afterwards it has been flushed once.\<close>

theorem refreshWorker_Process_flush_counterexample:
  "RomBatch_Size (batch_example None) (10485760, 0, []) = MaxBatchSize \<and>
   refreshWorker_Process (batch_example None) Parse_example (10485760, 0, []) ''a.dat'' 7 =
     (None, (2, 1, [(''a.dat'', [245, 114])]))"
  by (simp add: refreshWorker_Process_def MaxBatchSize_def batch_example_def Parse_example_def)

text \<open>
  Batches at the cap, above it and below it, with a parser that succeeds or fails, and a
  batch whose flush fails.
\<close>

theorem refreshWorker_Process_flush_witness:
  "refreshWorker_Process (batch_example None) Parse_example (10485760, 0, []) ''a.dat'' 7 =
     (None, (2, 1, [(''a.dat'', [245, 114])])) \<and>
   refreshWorker_Process (batch_example None) Parse_example (10485761, 0, []) [] 7 =
     (Some (ErrorString ''no such dat''), (0, 1, [])) \<and>
   refreshWorker_Process (batch_example None) Parse_example (10485759, 0, []) ''a.dat'' 7 =
     (None, (10485761, 0, [(''a.dat'', [245, 114])])) \<and>
   refreshWorker_Process (batch_example None) Parse_example (10485759, 0, []) [] 7 =
     (Some (ErrorString ''no such dat''), (10485759, 0, [])) \<and>
   refreshWorker_Process (batch_example (Some ErrPermission)) Parse_example (10485760, 0, []) ''a.dat'' 7 =
     (Some (Errorf ''failed to flush: '' ErrPermission), (10485760, 0, []))"
proof -
  have a: "refreshWorker_Process (batch_example None) Parse_example (10485760, 0, []) ''a.dat'' 7 =
     (None, (2, 1, [(''a.dat'', [245, 114])]))"
    using refreshWorker_Process_flush[where B = "batch_example None" and b = "(10485760, 0, [])" and b' = "(0, 1, [])"
        and Parse = Parse_example and path = "''a.dat''" and sz = 7 and dat = "''a.dat''" and ?sha1.0 = "[245, 114]"]
    by (simp add: MaxBatchSize_def batch_example_def Parse_example_def)
  have b: "refreshWorker_Process (batch_example None) Parse_example (10485761, 0, []) [] 7 =
     (Some (ErrorString ''no such dat''), (0, 1, []))"
    using refreshWorker_Process_flush[where B = "batch_example None" and b = "(10485761, 0, [])" and b' = "(0, 1, [])"
        and Parse = Parse_example and path = "[]" and sz = 7 and err = "ErrorString ''no such dat''"]
    by (simp add: MaxBatchSize_def batch_example_def Parse_example_def)
  have c: "refreshWorker_Process (batch_example None) Parse_example (10485759, 0, []) ''a.dat'' 7 =
     (None, (10485761, 0, [(''a.dat'', [245, 114])]))"
    using refreshWorker_Process_flush[where B = "batch_example None" and b = "(10485759, 0, [])"
        and Parse = Parse_example and path = "''a.dat''" and sz = 7 and dat = "''a.dat''" and ?sha1.0 = "[245, 114]"]
    by (simp add: MaxBatchSize_def batch_example_def Parse_example_def)
  have d: "refreshWorker_Process (batch_example None) Parse_example (10485759, 0, []) [] 7 =
     (Some (ErrorString ''no such dat''), (10485759, 0, []))"
    using refreshWorker_Process_flush[where B = "batch_example None" and b = "(10485759, 0, [])"
        and Parse = Parse_example and path = "[]" and sz = 7 and err = "ErrorString ''no such dat''"]
    by (simp add: MaxBatchSize_def batch_example_def Parse_example_def)
  have e: "refreshWorker_Process (batch_example (Some ErrPermission)) Parse_example (10485760, 0, []) ''a.dat'' 7 =
     (Some (Errorf ''failed to flush: '' ErrPermission), (10485760, 0, []))"
    using refreshWorker_Process_flush[where B = "batch_example (Some ErrPermission)" and b = "(10485760, 0, [])"
        and b' = "(10485760, 0, [])" and Parse = Parse_example and path = "''a.dat''" and sz = 7
        and err = ErrPermission]
    by (simp add: MaxBatchSize_def batch_example_def)
  from a b c d e show ?thesis by simp
qed

section \<open>The generation file\<close>

lemma digit_cases:
  assumes "d < (10::nat)"
  shows "d = 0 \<or> d = 1 \<or> d = 2 \<or> d = 3 \<or> d = 4 \<or> d = 5 \<or> d = 6 \<or> d = 7 \<or> d = 8 \<or> d = 9"
  using assms by arith

lemma digit_char_props:
  assumes "d < 10"
  shows "is_digit (digit_char d)" and "digit_val (digit_char d) = d"
    and "digit_char d \<noteq> CHR ''+''" and "digit_char d \<noteq> CHR ''-''"
  using digit_cases[OF assms]
  by (auto simp: digit_char_def is_digit_def digit_val_def)

lemma format_nat_digits: "list_all is_digit (format_nat n)"
proof (induction n rule: format_nat.induct)
  case (1 n)
  show ?case
  proof (cases "n < 10")
    case True
    then show ?thesis by (subst format_nat.simps) (simp add: digit_char_props)
  next
    case False
    then show ?thesis using 1 by (subst format_nat.simps) (simp add: digit_char_props)
  qed
qed

lemma format_nat_nonempty: "format_nat n \<noteq> []"
  by (subst format_nat.simps) simp

lemma ParseUint_loop_snoc:
  assumes "ParseUint_loop ds n = (m, None)" and "is_digit c" and "10 * m + digit_val c \<le> 2 ^ 64 - 1"
  shows "ParseUint_loop (ds @ [c]) n = (10 * m + digit_val c, None)"
  using assms(1)
proof (induction ds arbitrary: n)
  case Nil
  hence "n = m" by simp
  moreover have "\<not> (2 ^ 64 - 1) div 10 + 1 \<le> m" using assms(3) by simp
  ultimately show ?case using assms(2,3) by simp
next
  case (Cons d ds)
  from Cons.prems have "ParseUint_loop ds (10 * n + digit_val d) = (m, None)"
    by (simp split: if_splits)
  from Cons.IH[OF this] Cons.prems show ?case by (simp split: if_splits)
qed

lemma ParseUint_format_nat:
  "n < 2 ^ 64 \<Longrightarrow> ParseUint_loop (format_nat n) 0 = (n, None)"
proof (induction n rule: format_nat.induct)
  case (1 n)
  show ?case
  proof (cases "n < 10")
    case True
    then show ?thesis
      by (subst format_nat.simps) (simp add: digit_char_props)
  next
    case False
    have small: "n div 10 < 2 ^ 64" using "1.prems" by simp
    have IH: "ParseUint_loop (format_nat (n div 10)) 0 = (n div 10, None)"
      using "1.IH"[OF False small] .
    have d: "is_digit (digit_char (n mod 10))" "digit_val (digit_char (n mod 10)) = n mod 10"
      by (simp_all add: digit_char_props)
    have fit: "10 * (n div 10) + digit_val (digit_char (n mod 10)) \<le> 2 ^ 64 - 1"
      using "1.prems" d(2) by simp
    have "ParseUint_loop (format_nat (n div 10) @ [digit_char (n mod 10)]) 0 =
            (10 * (n div 10) + digit_val (digit_char (n mod 10)), None)"
      by (rule ParseUint_loop_snoc[OF IH d(1) fit])
    thus ?thesis using False d(2) by (subst format_nat.simps) simp
  qed
qed

lemma ParseUint_format:
  "n < 2 ^ 64 \<Longrightarrow> ParseUint (format_nat n) = (n, None)"
  by (simp add: ParseUint_def format_nat_nonempty ParseUint_format_nat)

lemma format_nat_no_sign: "hd (format_nat n) \<noteq> CHR ''+'' \<and> hd (format_nat n) \<noteq> CHR ''-''"
proof -
  have "list_all is_digit (format_nat n)" by (rule format_nat_digits)
  moreover have "format_nat n \<noteq> []" by (rule format_nat_nonempty)
  ultimately have "is_digit (hd (format_nat n))" by (cases "format_nat n") auto
  thus ?thesis by (auto simp: is_digit_def)
qed

text \<open>Parsing the decimal rendering of an \<^verbatim>\<open>int64\<close> gives the number back.\<close>

lemma ParseInt_FormatInt:
  assumes "- (2 ^ 63) \<le> n" and "n < 2 ^ 63"
  shows "ParseInt (FormatInt n) = (n, None)"
proof (cases "n < 0")
  case True
  have "nat (- n) < 2 ^ 64" using assms by simp
  hence "ParseUint (format_nat (nat (- n))) = (nat (- n), None)" by (rule ParseUint_format)
  hence "ParseInt (CHR ''-'' # format_nat (nat (- n))) = (n, None)"
    using True assms by (simp add: ParseInt_def)
  thus ?thesis using True by (simp add: FormatInt_def)
next
  case False
  obtain c cs where s: "format_nat (nat n) = c # cs"
    using format_nat_nonempty[of "nat n"] by (cases "format_nat (nat n)") auto
  have c: "c \<noteq> CHR ''+''" "c \<noteq> CHR ''-''" using format_nat_no_sign[of "nat n"] s by auto
  have "nat n < 2 ^ 64" using assms by simp
  hence "ParseUint (c # cs) = (nat n, None)" using ParseUint_format[of "nat n"] s by simp
  hence "ParseInt (c # cs) = (n, None)"
    using False assms c by (simp add: ParseInt_def)
  thus ?thesis using False s by (simp add: FormatInt_def)
qed

text \<open>
  The loop of \<^verbatim>\<open>ParseUint\<close> stops at whichever comes first: twenty nines overflow before
  the letter is read, a letter among the first digits is a syntax error.
\<close>

lemma ParseInt_examples:
  "ParseInt ''99999999999999999999x'' = (2 ^ 63 - 1, Some ErrRange)"
  "ParseInt ''9x9999999999999999999'' = (0, Some ErrSyntax)"
  "ParseInt ''-9223372036854775808'' = (- (2 ^ 63), None)"
  "ParseInt ''9223372036854775808'' = (2 ^ 63 - 1, Some ErrRange)"
  "ParseInt ''42'' = (42, None)"
  "ParseInt [] = (0, Some ErrSyntax)"
  by (simp_all add: ParseInt_def ParseUint_def is_digit_def digit_val_def)

lemma generation_path_example:
  "Join (unix g) [''/depot'', generationFilename] = ''/depot/romba-generation''"
  by (simp add: unix_def unix_Join_def unix_Clean_def clean_step_def generationFilename_def)

text \<open>
  Claim C7, as the code has it. \<^verbatim>\<open>ReadGenerationFile(root)\<close>: when the file
  \<^verbatim>\<open>romba-generation\<close> under \<open>root\<close> is absent and can be created and written, it is
  created with contents \<open>0\<close>, without a newline, and the call returns 0 and no error;
  when it cannot be created, the call returns 0 and the error of the creation and
  leaves the file system as it is. When the file is present and can be opened and
  read, the call returns what \<^verbatim>\<open>strconv.ParseInt\<close> makes of its contents, which for the
  decimal rendering of an \<^verbatim>\<open>int64\<close> is that integer and no error; when it cannot be
  opened (for another reason than its absence) or cannot be read, the call returns 0
  and that error.
\<close>

theorem ReadGenerationFile_cases:
  "(files fs (Join P [root, generationFilename]) = None \<and>
    open_err fs (Join P [root, generationFilename]) = None \<and>
    create_err fs (Join P [root, generationFilename]) = None \<and>
    write_err fs (Join P [root, generationFilename]) = None \<longrightarrow>
      ReadGenerationFile P fs root =
        ((0, None), fs\<lparr>files := (files fs)(Join P [root, generationFilename] \<mapsto> ''0'')\<rparr>)) \<and>
   (files fs (Join P [root, generationFilename]) = Some contents \<and>
    open_err fs (Join P [root, generationFilename]) = None \<and>
    read_err fs (Join P [root, generationFilename]) = None \<longrightarrow>
      ReadGenerationFile P fs root = (ParseInt contents, fs)) \<and>
   (- (2 ^ 63) \<le> n \<and> n < 2 ^ 63 \<longrightarrow> ParseInt (FormatInt n) = (n, None)) \<and>
   (files fs (Join P [root, generationFilename]) = None \<and>
    open_err fs (Join P [root, generationFilename]) = None \<and>
    create_err fs (Join P [root, generationFilename]) = Some e \<longrightarrow>
      ReadGenerationFile P fs root = ((0, Some (PathError ''open'' (Join P [root, generationFilename]) e)), fs)) \<and>
   (open_err fs (Join P [root, generationFilename]) = Some e \<and> e \<noteq> ErrNotExist \<longrightarrow>
      ReadGenerationFile P fs root = ((0, Some (PathError ''open'' (Join P [root, generationFilename]) e)), fs)) \<and>
   (files fs (Join P [root, generationFilename]) = Some contents \<and>
    open_err fs (Join P [root, generationFilename]) = None \<and>
    read_err fs (Join P [root, generationFilename]) = Some e \<longrightarrow>
      ReadGenerationFile P fs root = ((0, Some e), fs))"
proof -
  let ?p = "Join P [root, generationFilename]"
  have zero: "FormatInt 0 = ''0''"
    by (simp add: FormatInt_def format_nat.simps digit_char_def)
  have absent: "files fs ?p = None \<and> open_err fs ?p = None \<and> create_err fs ?p = None \<and>
      write_err fs ?p = None \<longrightarrow>
      ReadGenerationFile P fs root = ((0, None), fs\<lparr>files := (files fs)(?p \<mapsto> ''0'')\<rparr>)"
    using zero
    by (simp add: ReadGenerationFile_def WriteGenerationFile_def os_Open_def os_Create_def
        IsNotExist_def Let_def)
  have present: "files fs ?p = Some contents \<and> open_err fs ?p = None \<and> read_err fs ?p = None \<longrightarrow>
      ReadGenerationFile P fs root = (ParseInt contents, fs)"
    by (simp add: ReadGenerationFile_def os_Open_def Let_def)
  have parse: "- (2 ^ 63) \<le> n \<and> n < 2 ^ 63 \<longrightarrow> ParseInt (FormatInt n) = (n, None)"
    using ParseInt_FormatInt by blast
  have nocreate: "files fs ?p = None \<and> open_err fs ?p = None \<and> create_err fs ?p = Some e \<longrightarrow>
      ReadGenerationFile P fs root = ((0, Some (PathError ''open'' ?p e)), fs)"
    by (simp add: ReadGenerationFile_def WriteGenerationFile_def os_Open_def os_Create_def
        IsNotExist_def Let_def)
  have noopen: "open_err fs ?p = Some e \<and> e \<noteq> ErrNotExist \<longrightarrow>
      ReadGenerationFile P fs root = ((0, Some (PathError ''open'' ?p e)), fs)"
    by (simp add: ReadGenerationFile_def os_Open_def IsNotExist_def Let_def)
  have noread: "files fs ?p = Some contents \<and> open_err fs ?p = None \<and> read_err fs ?p = Some e \<longrightarrow>
      ReadGenerationFile P fs root = ((0, Some e), fs)"
    by (simp add: ReadGenerationFile_def os_Open_def Let_def)
  from absent present parse nocreate noopen noread show ?thesis by blast
qed

text \<open>
  The file is absent in each case. Where it cannot be created, the call returns the
  error and creates nothing. Where it is created but the write fails, the error of the
  write is dropped: the call returns 0 and no error, the file is left empty, and the
  next call fails to parse it. A file that is present but cannot be read gives the
  error of the read.
\<close>

theorem ReadGenerationFile_cases_counterexample:
  "files (filesys_example Map.empty) ''/depot/romba-generation'' = None \<and>
   fst (ReadGenerationFile (unix ([], None))
         ((filesys_example Map.empty)\<lparr>create_err := [''/depot/romba-generation'' \<mapsto> ErrPermission]\<rparr>) ''/depot'') =
     (0, Some (PathError ''open'' ''/depot/romba-generation'' ErrPermission)) \<and>
   files (snd (ReadGenerationFile (unix ([], None))
         ((filesys_example Map.empty)\<lparr>create_err := [''/depot/romba-generation'' \<mapsto> ErrPermission]\<rparr>) ''/depot''))
     ''/depot/romba-generation'' = None \<and>
   fst (ReadGenerationFile (unix ([], None))
         ((filesys_example Map.empty)\<lparr>write_err := [''/depot/romba-generation'' \<mapsto> ErrorString ''no space left on device'']\<rparr>)
         ''/depot'') = (0, None) \<and>
   files (snd (ReadGenerationFile (unix ([], None))
         ((filesys_example Map.empty)\<lparr>write_err := [''/depot/romba-generation'' \<mapsto> ErrorString ''no space left on device'']\<rparr>)
         ''/depot'')) ''/depot/romba-generation'' = Some [] \<and>
   fst (ReadGenerationFile (unix ([], None))
         (snd (ReadGenerationFile (unix ([], None))
           ((filesys_example Map.empty)\<lparr>write_err := [''/depot/romba-generation'' \<mapsto> ErrorString ''no space left on device'']\<rparr>)
           ''/depot'')) ''/depot'') = (0, Some ErrSyntax) \<and>
   fst (ReadGenerationFile (unix ([], None))
         ((filesys_example [''/depot/romba-generation'' \<mapsto> ''42''])\<lparr>read_err := [''/depot/romba-generation'' \<mapsto> ErrPermission]\<rparr>)
         ''/depot'') = (0, Some ErrPermission)"
  by (simp add: generation_path_example ReadGenerationFile_def WriteGenerationFile_def os_Open_def
      os_Create_def IsNotExist_def filesys_example_def Let_def ParseInt_def)


text \<open>
  An empty depot, a depot whose generation file holds 42, a depot where the file cannot
  be created, one where it cannot be opened and one where it cannot be read.
\<close>

theorem ReadGenerationFile_cases_witness:
  "ReadGenerationFile (unix ([], None)) (filesys_example Map.empty) ''/depot'' =
     ((0, None), filesys_example [''/depot/romba-generation'' \<mapsto> ''0'']) \<and>
   ReadGenerationFile (unix ([], None)) (filesys_example [''/depot/romba-generation'' \<mapsto> ''42'']) ''/depot'' =
     ((42, None), filesys_example [''/depot/romba-generation'' \<mapsto> ''42'']) \<and>
   ParseInt (FormatInt 42) = (42, None) \<and>
   fst (ReadGenerationFile (unix ([], None))
         ((filesys_example Map.empty)\<lparr>create_err := [''/depot/romba-generation'' \<mapsto> ErrPermission]\<rparr>) ''/depot'') =
     (0, Some (PathError ''open'' ''/depot/romba-generation'' ErrPermission)) \<and>
   fst (ReadGenerationFile (unix ([], None))
         ((filesys_example [''/depot/romba-generation'' \<mapsto> ''42''])\<lparr>open_err := [''/depot/romba-generation'' \<mapsto> ErrPermission]\<rparr>)
         ''/depot'') =
     (0, Some (PathError ''open'' ''/depot/romba-generation'' ErrPermission)) \<and>
   fst (ReadGenerationFile (unix ([], None))
         ((filesys_example [''/depot/romba-generation'' \<mapsto> ''42''])\<lparr>read_err := [''/depot/romba-generation'' \<mapsto> ErrPermission]\<rparr>)
         ''/depot'') =
     (0, Some ErrPermission)"
proof -
  note p = generation_path_example[of "([], None)"]
  have a: "ReadGenerationFile (unix ([], None)) (filesys_example Map.empty) ''/depot'' =
     ((0, None), filesys_example [''/depot/romba-generation'' \<mapsto> ''0''])"
    using ReadGenerationFile_cases[where fs = "filesys_example Map.empty" and P = "unix ([], None)" and root = "''/depot''"]
    unfolding p by (simp add: filesys_example_def)
  have pi: "ParseInt ''42'' = (42, None)"
    by (rule ParseInt_examples)
  have b: "ReadGenerationFile (unix ([], None)) (filesys_example [''/depot/romba-generation'' \<mapsto> ''42'']) ''/depot'' =
     ((42, None), filesys_example [''/depot/romba-generation'' \<mapsto> ''42''])"
    using ReadGenerationFile_cases[where fs = "filesys_example [''/depot/romba-generation'' \<mapsto> ''42'']"
        and P = "unix ([], None)" and root = "''/depot''" and contents = "''42''"]
    unfolding p by (simp add: filesys_example_def pi)
  have c: "ParseInt (FormatInt 42) = (42, None)"
    using ReadGenerationFile_cases[where n = 42] by simp
  have d: "fst (ReadGenerationFile (unix ([], None))
         ((filesys_example Map.empty)\<lparr>create_err := [''/depot/romba-generation'' \<mapsto> ErrPermission]\<rparr>) ''/depot'') =
     (0, Some (PathError ''open'' ''/depot/romba-generation'' ErrPermission))"
    using ReadGenerationFile_cases[where
        fs = "(filesys_example Map.empty)\<lparr>create_err := [''/depot/romba-generation'' \<mapsto> ErrPermission]\<rparr>"
        and P = "unix ([], None)" and root = "''/depot''" and e = ErrPermission]
    unfolding p by (simp add: filesys_example_def)
  have e: "fst (ReadGenerationFile (unix ([], None))
         ((filesys_example [''/depot/romba-generation'' \<mapsto> ''42''])\<lparr>open_err := [''/depot/romba-generation'' \<mapsto> ErrPermission]\<rparr>)
         ''/depot'') =
     (0, Some (PathError ''open'' ''/depot/romba-generation'' ErrPermission))"
    using ReadGenerationFile_cases[where
        fs = "(filesys_example [''/depot/romba-generation'' \<mapsto> ''42''])\<lparr>open_err := [''/depot/romba-generation'' \<mapsto> ErrPermission]\<rparr>"
        and P = "unix ([], None)" and root = "''/depot''" and e = ErrPermission]
    unfolding p by (simp add: filesys_example_def)
  have f: "fst (ReadGenerationFile (unix ([], None))
         ((filesys_example [''/depot/romba-generation'' \<mapsto> ''42''])\<lparr>read_err := [''/depot/romba-generation'' \<mapsto> ErrPermission]\<rparr>)
         ''/depot'') =
     (0, Some ErrPermission)"
    using ReadGenerationFile_cases[where
        fs = "(filesys_example [''/depot/romba-generation'' \<mapsto> ''42''])\<lparr>read_err := [''/depot/romba-generation'' \<mapsto> ErrPermission]\<rparr>"
        and P = "unix ([], None)" and root = "''/depot''" and e = ErrPermission and contents = "''42''"]
    unfolding p by (simp add: filesys_example_def)
  from a b c d e f show ?thesis by simp
qed

section \<open>Depot paths\<close>

lemma split_on_nonempty: "split_on c xs \<noteq> []"
  by (induction xs) (auto split: list.splits)

lemma split_on_no_sep: "c \<notin> set xs \<Longrightarrow> split_on c xs = [xs]"
  by (induction xs) auto

lemma split_on_append: "split_on c (xs @ c # ys) = split_on c xs @ split_on c ys"
proof (induction xs)
  case Nil
  show ?case by simp
next
  case (Cons x xs)
  obtain w ws where s: "split_on c xs = w # ws"
    using split_on_nonempty[of c xs] by (cases "split_on c xs") auto
  show ?case using Cons s by simp
qed

lemma split_on_tail:
  assumes "\<forall>e\<in>set cs. c \<notin> set e"
  shows "split_on c (xs @ concat (map ((#) c) cs)) = split_on c xs @ cs"
  using assms
proof (induction cs arbitrary: xs rule: rev_induct)
  case Nil
  show ?case by simp
next
  case (snoc e cs)
  have "split_on c (xs @ concat (map ((#) c) (cs @ [e]))) = split_on c ((xs @ concat (map ((#) c) cs)) @ c # e)"
    by simp
  also have "\<dots> = split_on c (xs @ concat (map ((#) c) cs)) @ split_on c e"
    by (rule split_on_append)
  also have "\<dots> = (split_on c xs @ cs) @ [e]"
    using snoc by (simp add: split_on_no_sep)
  finally show ?case by simp
qed

lemma join_with_tail:
  "xs \<noteq> [] \<Longrightarrow> join_with s (xs @ cs) = join_with s xs @ concat (map ((@) s) cs)"
proof (induction s xs rule: join_with.induct)
  case (1 s)
  then show ?case by simp
next
  case (2 s e)
  show ?case by (induction cs arbitrary: e) (auto)
next
  case (3 s e v va)
  then show ?case by simp
qed

lemma join_with_cons: "join_with s (r # cs) = r @ concat (map ((@) s) cs)"
  using join_with_tail[of "[r]" s cs] by simp

lemma clean_step_plain: "plain e \<Longrightarrow> clean_step rooted st e = e # st"
  by (auto simp: clean_step_def plain_def)

lemma foldl_clean_step_plain:
  "\<forall>e\<in>set cs. plain e \<Longrightarrow> foldl (clean_step rooted) st cs = rev cs @ st"
  by (induction cs arbitrary: st) (auto simp: clean_step_plain)

lemma unix_Clean_nonempty_path:
  assumes "p \<noteq> []" and "rooted = (hd p = CHR ''/'')"
    and "S = foldl (clean_step rooted) [] (split_on CHR ''/'' p)"
  shows "unix_Clean p =
           (if rooted then CHR ''/'' # join_with ''/'' (rev S)
            else if join_with ''/'' (rev S) = [] then ''.'' else join_with ''/'' (rev S))"
  using assms by (simp add: unix_Clean_def Let_def)

text \<open>
  Joining a clean root, other than \<open>/\<close> and \<open>.\<close>, with plain elements appends them,
  each after a separator.
\<close>

lemma unix_Join_clean_root:
  assumes clean: "unix_Clean root = root"
    and nr: "root \<noteq> ''/''" and nd: "root \<noteq> ''.''"
    and pl: "\<forall>e\<in>set cs. plain e"
  shows "unix_Join (root # cs) = root @ concat (map ((#) CHR ''/'') cs)"
proof -
  have ne: "root \<noteq> []" using clean by (auto simp: unix_Clean_def)
  define tail where "tail = concat (map ((#) CHR ''/'') cs)"
  define rooted where "rooted = (hd root = CHR ''/'')"
  define S where "S = foldl (clean_step rooted) [] (split_on CHR ''/'' root)"
  define S' where "S' = foldl (clean_step rooted) [] (split_on CHR ''/'' (root @ tail))"
  have tl: "concat (map ((@) ''/'') cs) = tail" unfolding tail_def by (induction cs) auto
  have j: "join_with ''/'' (root # cs) = root @ tail"
    using join_with_cons[of "''/''" root cs] tl by simp
  have nosep: "\<forall>e\<in>set cs. CHR ''/'' \<notin> set e" using pl by (auto simp: plain_def)
  have sp: "split_on CHR ''/'' (root @ tail) = split_on CHR ''/'' root @ cs"
    unfolding tail_def by (rule split_on_tail[OF nosep])
  have fo: "S' = rev cs @ S"
    unfolding S'_def S_def sp using foldl_clean_step_plain[OF pl] by simp
  have rootform: "root =
           (if rooted then CHR ''/'' # join_with ''/'' (rev S)
            else if join_with ''/'' (rev S) = [] then ''.'' else join_with ''/'' (rev S))"
    using unix_Clean_nonempty_path[OF ne rooted_def S_def] clean by simp
  have S: "S \<noteq> []"
  proof
    assume "S = []"
    with rootform have "root = ''/'' \<or> root = ''.''" by (auto split: if_splits)
    thus False using nr nd by simp
  qed
  have body: "join_with ''/'' (rev S') = join_with ''/'' (rev S) @ tail"
    using join_with_tail[of "rev S" "''/''" cs] S tl fo by simp
  have ne': "root @ tail \<noteq> []" using ne by simp
  have rooted': "rooted = (hd (root @ tail) = CHR ''/'')" using ne by (simp add: rooted_def)
  have "unix_Clean (root @ tail) =
           (if rooted then CHR ''/'' # join_with ''/'' (rev S')
            else if join_with ''/'' (rev S') = [] then ''.'' else join_with ''/'' (rev S'))"
    by (rule unix_Clean_nonempty_path[OF ne' rooted' S'_def])
  also have "\<dots> = root @ tail"
  proof (cases rooted)
    case True
    with rootform have "root = CHR ''/'' # join_with ''/'' (rev S)" by simp
    hence "root @ tail = CHR ''/'' # join_with ''/'' (rev S')" using body by simp
    thus ?thesis using True by simp
  next
    case False
    with rootform nd have r: "root = join_with ''/'' (rev S)" by (auto split: if_splits)
    hence "join_with ''/'' (rev S') = root @ tail" using body by simp
    moreover have "root @ tail \<noteq> []" using ne by simp
    ultimately show ?thesis using False by simp
  qed
  finally have "unix_Clean (root @ tail) = root @ tail" .
  thus ?thesis using ne j by (simp add: unix_Join_def tail_def split: list.splits)
qed

lemma not_hex_char: "\<not> hex_char CHR ''/''" "\<not> hex_char CHR ''.''"
  by (simp_all add: hex_char_def)

lemma hex_shard_plain:
  assumes "is_hex h" and "k + 2 \<le> length h"
  shows "plain (take 2 (drop k h))"
proof -
  let ?c = "take 2 (drop k h)"
  have len: "length ?c = 2" using assms(2) by simp
  have sub: "set ?c \<subseteq> set h" by (meson set_drop_subset set_take_subset subset_trans)
  have hex: "\<forall>c\<in>set h. hex_char c"
    using assms(1) by (simp add: is_hex_def list_all_iff)
  have "CHR ''/'' \<notin> set ?c" "CHR ''.'' \<notin> set ?c"
    using sub hex not_hex_char by blast+
  moreover have "?c \<noteq> []" using len by auto
  moreover have "?c \<noteq> ''.''"
  proof
    assume "?c = ''.''"
    hence "length ?c = 1" by simp
    thus False using len by simp
  qed
  moreover have "?c \<noteq> ''..''" using \<open>CHR ''.'' \<notin> set ?c\<close> by auto
  ultimately show ?thesis by (simp add: plain_def)
qed

lemma hex_file_plain:
  assumes "is_hex h" and "h \<noteq> []"
  shows "plain (h @ ''.gz'')"
proof -
  have hex: "\<forall>c\<in>set h. hex_char c"
    using assms(1) by (simp add: is_hex_def list_all_iff)
  have "CHR ''/'' \<notin> set h" using hex not_hex_char by blast
  moreover have "h @ ''.gz'' \<noteq> ''.''" "h @ ''.gz'' \<noteq> ''..''"
    using assms(2) by (cases h; simp)+
  ultimately show ?thesis using assms(2) by (simp add: plain_def)
qed

text \<open>On Unix, below a clean root, the depot path of a hex string of length 40.\<close>

lemma unix_depot_path:
  assumes hex: "is_hex h" and len: "length h = 40"
    and clean: "unix_Clean root = root" and nr: "root \<noteq> ''/''" and nd: "root \<noteq> ''.''"
  shows "pathFromSha1HexEncoding (unix getwd) root h ''.gz'' =
           Inr (root @ ''/'' @ take 2 h @ ''/'' @ take 2 (drop 2 h) @ ''/'' @ take 2 (drop 4 h) @ ''/'' @
                take 2 (drop 6 h) @ ''/'' @ h @ ''.gz'')"
proof -
  let ?cs = "[take 2 h, take 2 (drop 2 h), take 2 (drop 4 h), take 2 (drop 6 h), h @ ''.gz'']"
  have four: "[0..<4] = [0, 1, 2, 3]" by (simp add: upt_rec)
  have p: "pathFromSha1HexEncoding (unix getwd) root h ''.gz'' = Inr (unix_Join (root # ?cs))"
    using len by (simp add: pathFromSha1HexEncoding_def Let_def four drop_take unix_def)
  have "plain (take 2 (drop 0 h))" "plain (take 2 (drop 2 h))" "plain (take 2 (drop 4 h))"
    "plain (take 2 (drop 6 h))"
    using len by (intro hex_shard_plain[OF hex]; simp)+
  moreover have "plain (h @ ''.gz'')" using len by (intro hex_file_plain[OF hex]) auto
  ultimately have pl: "\<forall>e\<in>set ?cs. plain e" by simp
  show ?thesis
    unfolding p using unix_Join_clean_root[OF clean nr nd pl] by simp
qed

text \<open>
  Claim C4. For a SHA-1 hex string \<open>h\<close> of length 40, the storage path for \<open>root\<close> and
  suffix \<open>.gz\<close> is \<open>root\<close> joined with \<open>h[0:2]\<close>, \<open>h[2:4]\<close>, \<open>h[4:6]\<close>, \<open>h[6:8]\<close> and
  \<open>h\<close> followed by \<open>.gz\<close>; on Unix, for a clean root other than \<open>/\<close> and \<open>.\<close>, that is
  the root followed by the four shards and the file name, each after a \<open>/\<close>. For the
  hash of \<open>hello\<close> the shards are \<open>f5\<close>, \<open>72\<close>, \<open>d3\<close>, \<open>96\<close> and the path is the root
  followed by \<open>/f5/72/d3/96/f572d396fae9206628714fb2ce00f72e94f2258f.gz\<close>.
\<close>

theorem pathFromSha1HexEncoding_shards:
  "(length h = 40 \<longrightarrow>
      pathFromSha1HexEncoding P root h ''.gz'' =
        Inr (Join P [root, take 2 h, take 2 (drop 2 h), take 2 (drop 4 h), take 2 (drop 6 h), h @ ''.gz''])) \<and>
   (is_hex h \<and> length h = 40 \<and> unix_Clean root = root \<and> root \<noteq> ''/'' \<and> root \<noteq> ''.'' \<longrightarrow>
      pathFromSha1HexEncoding (unix getwd) root h ''.gz'' =
        Inr (root @ ''/'' @ take 2 h @ ''/'' @ take 2 (drop 2 h) @ ''/'' @ take 2 (drop 4 h) @ ''/'' @
             take 2 (drop 6 h) @ ''/'' @ h @ ''.gz'')) \<and>
   pathFromSha1HexEncoding P root ''f572d396fae9206628714fb2ce00f72e94f2258f'' ''.gz'' =
     Inr (Join P [root, ''f5'', ''72'', ''d3'', ''96'', ''f572d396fae9206628714fb2ce00f72e94f2258f.gz'']) \<and>
   (unix_Clean root = root \<and> root \<noteq> ''/'' \<and> root \<noteq> ''.'' \<longrightarrow>
      pathFromSha1HexEncoding (unix getwd) root ''f572d396fae9206628714fb2ce00f72e94f2258f'' ''.gz'' =
        Inr (root @ ''/f5/72/d3/96/f572d396fae9206628714fb2ce00f72e94f2258f.gz''))"
proof -
  have four: "[0..<4] = [0, 1, 2, 3]" by (simp add: upt_rec)
  have general: "length h = 40 \<longrightarrow>
      pathFromSha1HexEncoding P root h ''.gz'' =
        Inr (Join P [root, take 2 h, take 2 (drop 2 h), take 2 (drop 4 h), take 2 (drop 6 h), h @ ''.gz''])"
    by (simp add: pathFromSha1HexEncoding_def Let_def four drop_take)
  have sharded: "is_hex h \<and> length h = 40 \<and> unix_Clean root = root \<and> root \<noteq> ''/'' \<and> root \<noteq> ''.'' \<longrightarrow>
      pathFromSha1HexEncoding (unix getwd) root h ''.gz'' =
        Inr (root @ ''/'' @ take 2 h @ ''/'' @ take 2 (drop 2 h) @ ''/'' @ take 2 (drop 4 h) @ ''/'' @
             take 2 (drop 6 h) @ ''/'' @ h @ ''.gz'')"
    using unix_depot_path by blast
  have hello: "\<And>P. pathFromSha1HexEncoding P root ''f572d396fae9206628714fb2ce00f72e94f2258f'' ''.gz'' =
     Inr (Join P [root, ''f5'', ''72'', ''d3'', ''96'', ''f572d396fae9206628714fb2ce00f72e94f2258f.gz''])"
    by (simp add: pathFromSha1HexEncoding_def Let_def four)
  have posix: "unix_Clean root = root \<and> root \<noteq> ''/'' \<and> root \<noteq> ''.'' \<longrightarrow>
      pathFromSha1HexEncoding (unix getwd) root ''f572d396fae9206628714fb2ce00f72e94f2258f'' ''.gz'' =
        Inr (root @ ''/f5/72/d3/96/f572d396fae9206628714fb2ce00f72e94f2258f.gz'')"
  proof
    assume a: "unix_Clean root = root \<and> root \<noteq> ''/'' \<and> root \<noteq> ''.''"
    have pl: "\<forall>e\<in>set [''f5'', ''72'', ''d3'', ''96'', ''f572d396fae9206628714fb2ce00f72e94f2258f.gz'']. plain e"
      by (simp add: plain_def)
    have "unix_Join (root # [''f5'', ''72'', ''d3'', ''96'', ''f572d396fae9206628714fb2ce00f72e94f2258f.gz'']) =
            root @ concat (map ((#) CHR ''/'') [''f5'', ''72'', ''d3'', ''96'', ''f572d396fae9206628714fb2ce00f72e94f2258f.gz''])"
      using a by (intro unix_Join_clean_root[OF _ _ _ pl]) auto
    thus "pathFromSha1HexEncoding (unix getwd) root ''f572d396fae9206628714fb2ce00f72e94f2258f'' ''.gz'' =
        Inr (root @ ''/f5/72/d3/96/f572d396fae9206628714fb2ce00f72e94f2258f.gz'')"
      using hello[of "unix getwd"] by (simp add: unix_def)
  qed
  from general sharded hello posix show ?thesis by blast
qed

text \<open>The depot under \<open>/var/depot\<close>.\<close>

theorem pathFromSha1HexEncoding_shards_witness:
  "length ''f572d396fae9206628714fb2ce00f72e94f2258f'' = 40 \<and>
   is_hex ''f572d396fae9206628714fb2ce00f72e94f2258f'' \<and>
   unix_Clean ''/var/depot'' = ''/var/depot'' \<and>
   pathFromSha1HexEncoding (unix ([], None)) ''/var/depot'' ''f572d396fae9206628714fb2ce00f72e94f2258f'' ''.gz'' =
     Inr ''/var/depot/f5/72/d3/96/f572d396fae9206628714fb2ce00f72e94f2258f.gz'' \<and>
   pathFromSha1HexEncoding (unix ([], None)) ''/var/depot'' ''f572d396fae9206628714fb2ce00f72e94f2258f'' ''.gz'' =
     Inr (Join (unix ([], None)) [''/var/depot'', ''f5'', ''72'', ''d3'', ''96'',
            ''f572d396fae9206628714fb2ce00f72e94f2258f.gz''])"
proof -
  let ?h = "''f572d396fae9206628714fb2ce00f72e94f2258f''"
  have l: "length ?h = 40" by simp
  have x: "is_hex ?h" by code_simp
  have c: "unix_Clean ''/var/depot'' = ''/var/depot''"
    by (simp add: unix_Clean_def clean_step_def)
  have h: "unix_Clean ''/var/depot'' = ''/var/depot'' \<and> ''/var/depot'' \<noteq> ''/'' \<and> ''/var/depot'' \<noteq> ''.''"
    using c by simp
  note T = pathFromSha1HexEncoding_shards[where h = ?h
      and root = "''/var/depot''" and P = "unix ([], None)" and getwd = "([], None)"]
  have a: "pathFromSha1HexEncoding (unix ([], None)) ''/var/depot'' ?h ''.gz'' =
     Inr ''/var/depot/f5/72/d3/96/f572d396fae9206628714fb2ce00f72e94f2258f.gz''"
  proof -
    from T[THEN conjunct2, THEN conjunct1] x l h
    have "pathFromSha1HexEncoding (unix ([], None)) ''/var/depot'' ?h ''.gz'' =
        Inr (''/var/depot'' @ ''/'' @ take 2 ?h @ ''/'' @ take 2 (drop 2 ?h) @ ''/'' @ take 2 (drop 4 ?h) @ ''/'' @
             take 2 (drop 6 ?h) @ ''/'' @ ?h @ ''.gz'')"
      by blast
    thus ?thesis by simp
  qed
  have a': "pathFromSha1HexEncoding (unix ([], None)) ''/var/depot'' ?h ''.gz'' =
     Inr ''/var/depot/f5/72/d3/96/f572d396fae9206628714fb2ce00f72e94f2258f.gz''"
  proof -
    from T[THEN conjunct2, THEN conjunct2, THEN conjunct2] h
    have "pathFromSha1HexEncoding (unix ([], None)) ''/var/depot'' ?h ''.gz'' =
        Inr (''/var/depot'' @ ''/f5/72/d3/96/f572d396fae9206628714fb2ce00f72e94f2258f.gz'')"
      by blast
    thus ?thesis by simp
  qed
  have b: "pathFromSha1HexEncoding (unix ([], None)) ''/var/depot'' ?h ''.gz'' =
     Inr (Join (unix ([], None)) [''/var/depot'', ''f5'', ''72'', ''d3'', ''96'',
            ''f572d396fae9206628714fb2ce00f72e94f2258f.gz''])"
  proof -
    from T[THEN conjunct1] l
    have "pathFromSha1HexEncoding (unix ([], None)) ''/var/depot'' ?h ''.gz'' =
        Inr (Join (unix ([], None)) [''/var/depot'', take 2 ?h, take 2 (drop 2 ?h), take 2 (drop 4 ?h),
               take 2 (drop 6 ?h), ?h @ ''.gz''])"
      by blast
    thus ?thesis by simp
  qed
  from l x c a a' b show ?thesis by blast
qed

section \<open>Common root\<close>

lemma scan_inv_step:
  assumes "scan_inv sep sa sb c l" and "c < length sa" and "c < length sb" and "sa ! c = sb ! c"
  shows "scan_inv sep sa sb (c + 1) (if sa ! c = sep then int c else l)"
proof -
  have agree: "\<forall>i<c + 1. sa ! i = sb ! i"
    using assms by (auto simp: scan_inv_def less_Suc_eq)
  show ?thesis
  proof (cases "sa ! c = sep")
    case True
    then show ?thesis using assms agree by (auto simp: scan_inv_def)
  next
    case False
    have "\<forall>i<c + 1. l < int i \<longrightarrow> sa ! i \<noteq> sep"
      using assms(1) False by (auto simp: scan_inv_def less_Suc_eq)
    moreover have "l = - 1 \<or> (0 \<le> l \<and> nat l < c + 1 \<and> sa ! nat l = sep)"
      using assms(1) by (auto simp: scan_inv_def)
    ultimately show ?thesis using assms agree False by (simp add: scan_inv_def)
  qed
qed

lemma commonRoot_scan_inv:
  assumes "scan_inv sep sa sb c l" and "commonRoot_scan sep sa sb c l = (c', l')"
  shows "scan_inv sep sa sb c' l' \<and> \<not> (c' < length sa \<and> c' < length sb \<and> sa ! c' = sb ! c')"
  using assms
proof (induction sep sa sb c l rule: commonRoot_scan.induct)
  case (1 sep sa sb cursor lastSep)
  show ?case
  proof (cases "cursor < length sa \<and> cursor < length sb \<and> sa ! cursor = sb ! cursor")
    case True
    have step: "scan_inv sep sa sb (cursor + 1) (if sa ! cursor = sep then int cursor else lastSep)"
      using scan_inv_step[OF "1.prems"(1)] True by blast
    have res: "commonRoot_scan sep sa sb (cursor + 1) (if sa ! cursor = sep then int cursor else lastSep) = (c', l')"
      using "1.prems"(2) True by (subst (asm) commonRoot_scan.simps) simp
    show ?thesis using "1.IH"[OF True step res] .
  next
    case False
    hence "c' = cursor" "l' = lastSep"
      using "1.prems"(2) by (subst (asm) commonRoot_scan.simps, simp)+
    then show ?thesis using False "1.prems"(1) by simp
  qed
qed

lemma scan_inv_init: "scan_inv sep sa sb 0 (- 1)"
  by (simp add: scan_inv_def)

text \<open>
  What the loop finds: with \<open>lastSep = -1\<close> the paths have no common directory;
  otherwise the prefix before \<open>lastSep\<close> is their longest common directory.
\<close>

lemma commonRoot_scan_longest:
  assumes res: "commonRoot_scan sep sa sb 0 (- 1) = (c, l)"
  shows "(sa = sb \<longrightarrow> c = length sa) \<and>
         (c = length sa \<and> length sa = length sb \<longrightarrow> sa = sb) \<and>
         (l = - 1 \<longrightarrow> (\<forall>r. \<not> common_dir sep r sa sb)) \<and>
         (l \<noteq> - 1 \<longrightarrow> 0 \<le> l \<and> nat l < length sa \<and> common_dir sep (take (nat l) sa) sa sb \<and>
             (\<forall>r. common_dir sep r sa sb \<longrightarrow> length r \<le> nat l))"
proof -
  from commonRoot_scan_inv[OF scan_inv_init res]
  have inv: "scan_inv sep sa sb c l"
    and stop: "\<not> (c < length sa \<and> c < length sb \<and> sa ! c = sb ! c)" by blast+
  from inv have cle: "c \<le> length sa" "c \<le> length sb"
    and agree: "\<forall>i<c. sa ! i = sb ! i"
    and lpos: "l = - 1 \<or> (0 \<le> l \<and> nat l < c \<and> sa ! nat l = sep)"
    and nosep: "\<forall>i<c. l < int i \<longrightarrow> sa ! i \<noteq> sep"
    by (auto simp: scan_inv_def)
  have same: "sa = sb \<longrightarrow> c = length sa"
    using stop cle by auto
  have ident: "c = length sa \<and> length sa = length sb \<longrightarrow> sa = sb"
    using agree by (auto intro: nth_equalityI)
  \<comment> \<open>every common directory ends at a separator inside the common prefix\<close>
  have inside: "length r < c \<and> sa ! length r = sep" if cd: "common_dir sep r sa sb" for r
  proof -
    from cd obtain ta tb where sa: "sa = (r @ [sep]) @ ta" and sb: "sb = (r @ [sep]) @ tb"
      by (auto simp: common_dir_def prefix_def)
    have la: "length r < length sa" and lb: "length r < length sb"
      using sa sb by auto
    have eq: "sa ! i = sb ! i" if "i \<le> length r" for i
    proof -
      have "sa ! i = (r @ [sep]) ! i" using that by (subst sa) (simp add: nth_append del: append_assoc)
      moreover have "sb ! i = (r @ [sep]) ! i" using that by (subst sb) (simp add: nth_append del: append_assoc)
      ultimately show ?thesis by simp
    qed
    have "length r < c"
    proof (rule ccontr)
      assume "\<not> length r < c"
      hence "c \<le> length r" by simp
      hence "c < length sa" "c < length sb" "sa ! c = sb ! c"
        using la lb eq by auto
      thus False using stop by simp
    qed
    moreover have "sa ! length r = sep"
      by (subst sa) (simp add: nth_append del: append_assoc)
    ultimately show ?thesis by simp
  qed
  have none: "l = - 1 \<longrightarrow> (\<forall>r. \<not> common_dir sep r sa sb)"
  proof (intro impI allI notI)
    fix r assume "l = - 1" and "common_dir sep r sa sb"
    from inside[OF this(2)] nosep \<open>l = - 1\<close> show False by auto
  qed
  have some: "l \<noteq> - 1 \<longrightarrow> 0 \<le> l \<and> nat l < length sa \<and> common_dir sep (take (nat l) sa) sa sb \<and>
             (\<forall>r. common_dir sep r sa sb \<longrightarrow> length r \<le> nat l)"
  proof
    assume "l \<noteq> - 1"
    with lpos have l: "0 \<le> l" "nat l < c" "sa ! nat l = sep" by auto
    have la: "nat l < length sa" and lb: "nat l < length sb" using l cle by auto
    have ta: "take (nat l) sa @ [sep] = take (Suc (nat l)) sa"
      using la l(3) by (simp add: take_Suc_conv_app_nth)
    have "take (Suc (nat l)) sb = take (Suc (nat l)) sa"
      using l(2) agree cle by (intro nth_take_lemma) auto
    hence tb: "take (nat l) sa @ [sep] = take (Suc (nat l)) sb" using ta by simp
    have cd: "common_dir sep (take (nat l) sa) sa sb"
      unfolding common_dir_def ta using tb ta by (metis take_is_prefix)
    have mx: "\<forall>r. common_dir sep r sa sb \<longrightarrow> length r \<le> nat l"
    proof (intro allI impI)
      fix r assume "common_dir sep r sa sb"
      from inside[OF this] have "length r < c" "sa ! length r = sep" by auto
      with nosep have "\<not> l < int (length r)" by blast
      thus "length r \<le> nat l" by simp
    qed
    show "0 \<le> l \<and> nat l < length sa \<and> common_dir sep (take (nat l) sa) sa sb \<and>
             (\<forall>r. common_dir sep r sa sb \<longrightarrow> length r \<le> nat l)"
      using l(1) la cd mx by blast
  qed
  from same ident none some show ?thesis by blast
qed

lemma volume_split: "VolumeName P p @ after_volume P p = p"
  by (cases "volumeNameLen P p \<le> length p") (simp_all add: VolumeName_def after_volume_def min_def)

lemma commonRoot_unfold:
  assumes "pa \<noteq> []" and "pb \<noteq> []"
    and "VolumeName P (Clean P pa) = VolumeName P (Clean P pb)"
    and "commonRoot_scan (Separator P) (after_volume P (Clean P pa)) (after_volume P (Clean P pb)) 0 (- 1) = (c, l)"
  shows "commonRoot P pa pb =
     (if c = length (after_volume P (Clean P pa)) \<and>
         length (after_volume P (Clean P pa)) = length (after_volume P (Clean P pb)) then Clean P pa
      else if l = - 1 then VolumeName P (Clean P pa) @ [Separator P]
      else if take (length (VolumeName P (Clean P pa)) + nat l) (Clean P pa) = [] \<and> Separator P = CHR ''/'' then ''/''
      else take (length (VolumeName P (Clean P pa)) + nat l) (Clean P pa))"
  using assms by (simp add: commonRoot_def Let_def after_volume_def)

lemma commonRoot_core:
  assumes ne: "pa \<noteq> []" "pb \<noteq> []"
    and vol: "VolumeName P (Clean P pa) = VolumeName P (Clean P pb)"
    and diff: "Clean P pa \<noteq> Clean P pb"
    and rooted: "common_dir (Separator P) [] (after_volume P (Clean P pa)) (after_volume P (Clean P pb))"
  shows "\<exists>r. common_dir (Separator P) r (after_volume P (Clean P pa)) (after_volume P (Clean P pb)) \<and>
             (\<forall>r'. common_dir (Separator P) r' (after_volume P (Clean P pa)) (after_volume P (Clean P pb))
                    \<longrightarrow> length r' \<le> length r) \<and>
             commonRoot P pa pb =
               (if VolumeName P (Clean P pa) @ r = [] \<and> Separator P = CHR ''/'' then ''/''
                else VolumeName P (Clean P pa) @ r)"
proof -
  let ?sep = "Separator P"
  let ?va = "VolumeName P (Clean P pa)"
  let ?sa = "after_volume P (Clean P pa)" and ?sb = "after_volume P (Clean P pb)"
  obtain c l where res: "commonRoot_scan ?sep ?sa ?sb 0 (- 1) = (c, l)"
    by (cases "commonRoot_scan ?sep ?sa ?sb 0 (- 1)") auto
  note facts = commonRoot_scan_longest[OF res]
  have sab: "?sa \<noteq> ?sb"
  proof
    assume "?sa = ?sb"
    hence "?va @ ?sa = VolumeName P (Clean P pb) @ ?sb" using vol by simp
    thus False using diff by (simp add: volume_split)
  qed
  have notall: "\<not> (c = length ?sa \<and> length ?sa = length ?sb)" using facts sab by blast
  have lne: "l \<noteq> - 1" using facts rooted by blast
  with facts have l: "0 \<le> l" "nat l < length ?sa"
    and cd: "common_dir ?sep (take (nat l) ?sa) ?sa ?sb"
    and mx: "\<forall>r. common_dir ?sep r ?sa ?sb \<longrightarrow> length r \<le> nat l" by blast+
  have len: "length (take (nat l) ?sa) = nat l" using l by simp
  have "take (length ?va + nat l) (Clean P pa) = take (length ?va + nat l) (?va @ ?sa)"
    by (simp add: volume_split)
  hence tk: "take (length ?va + nat l) (Clean P pa) = ?va @ take (nat l) ?sa" by simp
  have "commonRoot P pa pb =
          (if take (length ?va + nat l) (Clean P pa) = [] \<and> ?sep = CHR ''/'' then ''/''
           else take (length ?va + nat l) (Clean P pa))"
    using commonRoot_unfold[OF ne vol res] by (simp only: notall lne if_False)
  hence "commonRoot P pa pb =
          (if ?va @ take (nat l) ?sa = [] \<and> ?sep = CHR ''/'' then ''/'' else ?va @ take (nat l) ?sa)"
    unfolding tk .
  moreover have "\<forall>r'. common_dir ?sep r' ?sa ?sb \<longrightarrow> length r' \<le> length (take (nat l) ?sa)"
    using mx len by simp
  ultimately show ?thesis using cd by blast
qed

lemma unix_Clean_rooted:
  assumes "unix_IsAbs p"
  shows "prefix ''/'' (unix_Clean p)"
  using assms by (simp add: unix_IsAbs_def unix_Clean_def Let_def)

text \<open>
  Claim C5. For non-empty paths: if the volume names of the cleaned paths differ,
  \<^verbatim>\<open>commonRoot\<close> returns the empty string; if the cleaned paths are identical it returns
  that path; otherwise, for absolute paths (behind the volume name both cleaned paths
  begin with a separator), it returns the volume name followed by the longest prefix
  \<open>r\<close> that ends at a path separator in both cleaned paths (\<open>r\<close> is followed by a
  separator in both, and no longer prefix is). On Unix, where there is no volume name,
  the result for absolute paths is that prefix, and \<open>/\<close> when the prefix is empty,
  that is when the paths share no directory.
\<close>

theorem commonRoot_longest_common_dir:
  assumes ne: "pa \<noteq> []" "pb \<noteq> []"
  shows "(VolumeName P (Clean P pa) \<noteq> VolumeName P (Clean P pb) \<longrightarrow> commonRoot P pa pb = []) \<and>
         (Clean P pa = Clean P pb \<longrightarrow> commonRoot P pa pb = Clean P pa) \<and>
         (VolumeName P (Clean P pa) = VolumeName P (Clean P pb) \<and> Clean P pa \<noteq> Clean P pb \<and>
          common_dir (Separator P) [] (after_volume P (Clean P pa)) (after_volume P (Clean P pb)) \<longrightarrow>
            (\<exists>r. common_dir (Separator P) r (after_volume P (Clean P pa)) (after_volume P (Clean P pb)) \<and>
                 (\<forall>r'. common_dir (Separator P) r' (after_volume P (Clean P pa)) (after_volume P (Clean P pb))
                        \<longrightarrow> length r' \<le> length r) \<and>
                 commonRoot P pa pb =
                   (if VolumeName P (Clean P pa) @ r = [] \<and> Separator P = CHR ''/'' then ''/''
                    else VolumeName P (Clean P pa) @ r))) \<and>
         (unix_IsAbs pa \<and> unix_IsAbs pb \<and> unix_Clean pa \<noteq> unix_Clean pb \<longrightarrow>
            (\<exists>r. common_dir CHR ''/'' r (unix_Clean pa) (unix_Clean pb) \<and>
                 (\<forall>r'. common_dir CHR ''/'' r' (unix_Clean pa) (unix_Clean pb) \<longrightarrow> length r' \<le> length r) \<and>
                 commonRoot (unix getwd) pa pb = (if r = [] then ''/'' else r)))"
proof -
  have volumes: "VolumeName P (Clean P pa) \<noteq> VolumeName P (Clean P pb) \<longrightarrow> commonRoot P pa pb = []"
    using ne by (simp add: commonRoot_def Let_def)
  have same: "Clean P pa = Clean P pb \<longrightarrow> commonRoot P pa pb = Clean P pa"
  proof
    assume eq: "Clean P pa = Clean P pb"
    obtain c l where res: "commonRoot_scan (Separator P) (after_volume P (Clean P pa))
        (after_volume P (Clean P pb)) 0 (- 1) = (c, l)"
      by (cases "commonRoot_scan (Separator P) (after_volume P (Clean P pa)) (after_volume P (Clean P pb)) 0 (- 1)") auto
    have "c = length (after_volume P (Clean P pa))"
      using commonRoot_scan_longest[OF res] eq by simp
    thus "commonRoot P pa pb = Clean P pa"
      using commonRoot_unfold[OF ne _ res] eq by simp
  qed
  have general: "VolumeName P (Clean P pa) = VolumeName P (Clean P pb) \<and> Clean P pa \<noteq> Clean P pb \<and>
          common_dir (Separator P) [] (after_volume P (Clean P pa)) (after_volume P (Clean P pb)) \<longrightarrow>
            (\<exists>r. common_dir (Separator P) r (after_volume P (Clean P pa)) (after_volume P (Clean P pb)) \<and>
                 (\<forall>r'. common_dir (Separator P) r' (after_volume P (Clean P pa)) (after_volume P (Clean P pb))
                        \<longrightarrow> length r' \<le> length r) \<and>
                 commonRoot P pa pb =
                   (if VolumeName P (Clean P pa) @ r = [] \<and> Separator P = CHR ''/'' then ''/''
                    else VolumeName P (Clean P pa) @ r))"
    using commonRoot_core[OF ne] by blast
  have posix: "unix_IsAbs pa \<and> unix_IsAbs pb \<and> unix_Clean pa \<noteq> unix_Clean pb \<longrightarrow>
            (\<exists>r. common_dir CHR ''/'' r (unix_Clean pa) (unix_Clean pb) \<and>
                 (\<forall>r'. common_dir CHR ''/'' r' (unix_Clean pa) (unix_Clean pb) \<longrightarrow> length r' \<le> length r) \<and>
                 commonRoot (unix getwd) pa pb = (if r = [] then ''/'' else r))"
  proof
    assume a: "unix_IsAbs pa \<and> unix_IsAbs pb \<and> unix_Clean pa \<noteq> unix_Clean pb"
    let ?U = "unix getwd"
    have U: "Separator ?U = CHR ''/''" "Clean ?U = unix_Clean" "\<And>p. VolumeName ?U p = []"
      "\<And>p. after_volume ?U p = p"
      by (simp_all add: unix_def VolumeName_def after_volume_def)
    have rooted: "common_dir (Separator ?U) [] (after_volume ?U (Clean ?U pa)) (after_volume ?U (Clean ?U pb))"
      using a unix_Clean_rooted by (simp add: U common_dir_def)
    have "VolumeName ?U (Clean ?U pa) = VolumeName ?U (Clean ?U pb)" by (simp add: U)
    moreover have "Clean ?U pa \<noteq> Clean ?U pb" using a by (simp add: U)
    ultimately obtain r where
      r: "common_dir (Separator ?U) r (after_volume ?U (Clean ?U pa)) (after_volume ?U (Clean ?U pb))"
        "\<forall>r'. common_dir (Separator ?U) r' (after_volume ?U (Clean ?U pa)) (after_volume ?U (Clean ?U pb))
                \<longrightarrow> length r' \<le> length r"
        "commonRoot ?U pa pb =
           (if VolumeName ?U (Clean ?U pa) @ r = [] \<and> Separator ?U = CHR ''/'' then ''/''
            else VolumeName ?U (Clean ?U pa) @ r)"
      using commonRoot_core[OF ne _ _ rooted] by blast
    have r1: "common_dir CHR ''/'' r (unix_Clean pa) (unix_Clean pb)" using r(1) by (simp add: U)
    have r2: "\<forall>r'. common_dir CHR ''/'' r' (unix_Clean pa) (unix_Clean pb) \<longrightarrow> length r' \<le> length r"
      using r(2) by (simp add: U)
    have r3: "commonRoot ?U pa pb = (if r = [] then ''/'' else r)" using r(3) by (simp add: U)
    from r1 r2 r3
    show "\<exists>r. common_dir CHR ''/'' r (unix_Clean pa) (unix_Clean pb) \<and>
                 (\<forall>r'. common_dir CHR ''/'' r' (unix_Clean pa) (unix_Clean pb) \<longrightarrow> length r' \<le> length r) \<and>
                 commonRoot (unix getwd) pa pb = (if r = [] then ''/'' else r)"
      by blast
  qed
  from volumes same general posix show ?thesis by blast
qed

text \<open>
  Instances: two drives; twice the same file; two files of one directory; two
  directories of one drive; and the values the code computes for Unix paths.
\<close>

theorem commonRoot_longest_common_dir_witness:
  "commonRoot drives [CHR ''C'', CHR '':'', CHR 0x5C, CHR ''r''] [CHR ''D'', CHR '':'', CHR 0x5C, CHR ''r''] = [] \<and>
   commonRoot (unix ([], None)) ''/roms/a.zip'' ''/roms//a.zip'' = ''/roms/a.zip'' \<and>
   (\<exists>r. common_dir CHR ''/'' r ''/roms/sets/a.zip'' ''/roms/sets/b.zip'' \<and>
        (\<forall>r'. common_dir CHR ''/'' r' ''/roms/sets/a.zip'' ''/roms/sets/b.zip'' \<longrightarrow> length r' \<le> length r) \<and>
        commonRoot (unix ([], None)) ''/roms/sets/a.zip'' ''/roms/sets/sub/../b.zip'' = (if r = [] then ''/'' else r)) \<and>
   (\<exists>r. common_dir (CHR 0x5C) r [CHR 0x5C, CHR ''r''] [CHR 0x5C, CHR ''t''] \<and>
        commonRoot drives [CHR ''C'', CHR '':'', CHR 0x5C, CHR ''r''] [CHR ''C'', CHR '':'', CHR 0x5C, CHR ''t''] = ''C:'' @ r) \<and>
   commonRoot (unix ([], None)) ''/roms/sets/a.zip'' ''/roms/sets/sub/../b.zip'' = ''/roms/sets'' \<and>
   commonRoot (unix ([], None)) ''/roms/a.zip'' ''/tmp/b.zip'' = ''/''"
proof -
  let ?U = "unix ([], None)"
  let ?c = "[CHR ''C'', CHR '':'', CHR 0x5C, CHR ''r'']" and ?d = "[CHR ''D'', CHR '':'', CHR 0x5C, CHR ''r'']"
  let ?t = "[CHR ''C'', CHR '':'', CHR 0x5C, CHR ''t'']"
  have cl: "unix_Clean ''/roms/sets/a.zip'' = ''/roms/sets/a.zip''"
    "unix_Clean ''/roms/sets/sub/../b.zip'' = ''/roms/sets/b.zip''"
    "unix_Clean ''/roms/a.zip'' = ''/roms/a.zip''" "unix_Clean ''/roms//a.zip'' = ''/roms/a.zip''"
    by code_simp+
  have vol: "VolumeName drives (Clean drives ?c) = ''C:''" "VolumeName drives (Clean drives ?d) = ''D:''"
    "VolumeName drives (Clean drives ?t) = ''C:''"
    by code_simp+
  have av: "after_volume drives (Clean drives ?c) = [CHR 0x5C, CHR ''r'']"
    "after_volume drives (Clean drives ?t) = [CHR 0x5C, CHR ''t'']"
    by code_simp+
  have a: "commonRoot drives ?c ?d = []"
    using commonRoot_longest_common_dir[where pa = ?c and pb = ?d and P = drives, THEN conjunct1]
    by (simp add: vol)
  have b: "commonRoot ?U ''/roms/a.zip'' ''/roms//a.zip'' = ''/roms/a.zip''"
    using commonRoot_longest_common_dir[where pa = "''/roms/a.zip''" and pb = "''/roms//a.zip''" and P = ?U,
        THEN conjunct2, THEN conjunct1]
    by (simp add: unix_def cl)
  have c: "\<exists>r. common_dir CHR ''/'' r ''/roms/sets/a.zip'' ''/roms/sets/b.zip'' \<and>
        (\<forall>r'. common_dir CHR ''/'' r' ''/roms/sets/a.zip'' ''/roms/sets/b.zip'' \<longrightarrow> length r' \<le> length r) \<and>
        commonRoot ?U ''/roms/sets/a.zip'' ''/roms/sets/sub/../b.zip'' = (if r = [] then ''/'' else r)"
    using commonRoot_longest_common_dir[where pa = "''/roms/sets/a.zip''" and pb = "''/roms/sets/sub/../b.zip''"
        and getwd = "([], None)", THEN conjunct2, THEN conjunct2, THEN conjunct2]
    by (simp add: cl unix_IsAbs_def)
  have d: "\<exists>r. common_dir (CHR 0x5C) r [CHR 0x5C, CHR ''r''] [CHR 0x5C, CHR ''t''] \<and>
        commonRoot drives ?c ?t = ''C:'' @ r"
  proof -
    have h: "VolumeName drives (Clean drives ?c) = VolumeName drives (Clean drives ?t) \<and>
             Clean drives ?c \<noteq> Clean drives ?t \<and>
             common_dir (Separator drives) [] (after_volume drives (Clean drives ?c))
               (after_volume drives (Clean drives ?t))"
      unfolding vol av by (simp add: drives_def common_dir_def)
    have ne: "?c \<noteq> []" "?t \<noteq> []" by simp_all
    from commonRoot_longest_common_dir[OF ne, where P = drives, THEN conjunct2, THEN conjunct2, THEN conjunct1] h
    obtain r where r: "common_dir (Separator drives) r (after_volume drives (Clean drives ?c))
               (after_volume drives (Clean drives ?t))"
      "commonRoot drives ?c ?t =
         (if VolumeName drives (Clean drives ?c) @ r = [] \<and> Separator drives = CHR ''/'' then ''/''
          else VolumeName drives (Clean drives ?c) @ r)"
      by blast
    have s: "Separator drives = CHR 0x5C" by (simp add: drives_def)
    from r(1) have "common_dir (CHR 0x5C) r [CHR 0x5C, CHR ''r''] [CHR 0x5C, CHR ''t'']"
      unfolding av s .
    moreover from r(2) have "commonRoot drives ?c ?t = ''C:'' @ r"
      unfolding vol s by simp
    ultimately show ?thesis by blast
  qed
  have e: "commonRoot ?U ''/roms/sets/a.zip'' ''/roms/sets/sub/../b.zip'' = ''/roms/sets''"
    "commonRoot ?U ''/roms/a.zip'' ''/tmp/b.zip'' = ''/''"
    by code_simp+
  from a b c d e show ?thesis by blast
qed

section \<open>The worker pool\<close>

text \<open>A callback that always returns nil makes the walk return nil.\<close>

lemma walk_nil:
  "\<forall>st path f err. fst (fn st path f err) = None \<Longrightarrow> fst (walk P fn path node st) = None"
  "\<forall>st path f err. fst (fn st path f err) = None \<Longrightarrow> fst (walk_names P fn path kids st) = None"
proof (induction P fn path node st and P fn path kids st rule: walk_walk_names.induct)
  case (1 P fn path n e st)
  then show ?case by simp
next
  case (2 P fn path n sz st)
  then show ?case by simp
next
  case (3 P fn path n sz rderr kids st)
  obtain err1 st1 where r: "fn st path (Some \<lparr>Name = n, Size = sz, IsDir = True\<rparr>) rderr = (err1, st1)"
    by (cases "fn st path (Some \<lparr>Name = n, Size = sz, IsDir = True\<rparr>) rderr") auto
  have e: "err1 = None"
  proof -
    have "fst (fn st path (Some \<lparr>Name = n, Size = sz, IsDir = True\<rparr>) rderr) = None"
      using "3.prems" by blast
    thus ?thesis using r by simp
  qed
  show ?case
  proof (cases "rderr \<noteq> None \<or> err1 \<noteq> None")
    case True
    then show ?thesis using r e by simp
  next
    case False
    then show ?thesis using r "3.IH"[OF r[symmetric] False "3.prems"] by simp
  qed
next
  case (4 P fn path st)
  show ?case by simp
next
  case (5 P fn path k ks st)
  obtain err st1 where r: "walk P fn (Join P [path, node_name k]) k st = (err, st1)"
    by (cases "walk P fn (Join P [path, node_name k]) k st") auto
  have e: "err = None" using "5.IH"(1)[OF "5.prems"] r by simp
  hence ns: "\<not> walk_stops k err" by (cases k) auto
  show ?case using r ns "5.IH"(2)[OF r[symmetric] ns "5.prems"] by simp
qed

lemma Walk_nil:
  assumes "\<forall>st path f err. fst (fn st path f err) = None"
  shows "fst (Walk P fs root fn st) = None"
  using walk_nil(1)[OF assms, of P root "fs root" st]
  by (auto simp: Walk_def split: prod.splits)

lemma countVisitor_visit_nil: "fst (countVisitor_visit P M m cv path f err) = None"
  by (simp add: countVisitor_visit_def split: option.splits)

lemma scanVisitor_visit_nil: "fst (scanVisitor_visit M m inwork path f err) = None"
  by (simp add: scanVisitor_visit_def split: option.splits)

lemma Work_count_nil: "fst (Work_count P fs M m paths cv) = None"
proof (induction paths arbitrary: cv)
  case Nil
  show ?case by simp
next
  case (Cons name rest)
  obtain e cv1 where w: "Walk P fs name (countVisitor_visit P M m) cv = (e, cv1)"
    by (cases "Walk P fs name (countVisitor_visit P M m) cv") auto
  have "e = None" using Walk_nil[of "countVisitor_visit P M m" P fs name cv] w
    by (simp add: countVisitor_visit_nil)
  thus ?case using w Cons.IH[of cv1] by simp
qed

lemma Work_dispatch_nil: "fst (Work_dispatch P fs M m paths inwork) = None"
proof (induction paths arbitrary: inwork)
  case Nil
  show ?case by simp
next
  case (Cons name rest)
  obtain e inwork1 where w: "Walk P fs name (scanVisitor_visit M m) inwork = (e, inwork1)"
    by (cases "Walk P fs name (scanVisitor_visit M m) inwork") auto
  have "e = None" using Walk_nil[of "scanVisitor_visit M m" P fs name inwork] w
    by (simp add: scanVisitor_visit_nil)
  thus ?case using w Cons.IH[of inwork1] by simp
qed

text \<open>
  Claim C3, as the code has it. The counting visitor returns nil on every call, also
  when it is called with a nil \<^verbatim>\<open>FileInfo\<close> or with an error, and then leaves its
  counters as they are; so every walk of the counting pass returns nil, the traversal
  errors reported to the visitor are dropped, the walk goes on, and the counting pass
  never makes \<^verbatim>\<open>Work\<close> return an error.
\<close>

theorem counting_pass_ignores_walk_errors:
  "fst (countVisitor_visit P M m cv path f err) = None \<and>
   countVisitor_visit P M m cv path None err = (None, cv) \<and>
   fst (Walk P fs root (countVisitor_visit P M m) cv) = None \<and>
   fst (Work_count P fs M m paths cv) = None"
  using Walk_nil[of "countVisitor_visit P M m" P fs root cv]
  by (simp add: countVisitor_visit_nil Work_count_nil) (simp add: countVisitor_visit_def)

text \<open>
  A root that is missing, an entry that cannot be examined and a directory that cannot
  be read: the visitor returns nil for the error, and \<^verbatim>\<open>Work\<close> counts and processes the
  two files and returns no error.
\<close>

theorem counting_pass_ignores_walk_errors_counterexample:
  "countVisitor_visit (unix ([], None)) (master_example None 1) ()
      \<lparr>numBytes = 0, numFiles = 0, commonRootPath = []\<rparr> ''/roms/a.zip'' None (Some ErrPermission) =
     (None, \<lparr>numBytes = 0, numFiles = 0, commonRootPath = []\<rparr>) \<and>
   ending (Work (unix ([], None)) tree_example (master_example None 1) (worker_example [])
             (\<lambda>j. 0) [] ''scan'' [''/missing'', ''/roms''] ()) =
     Returned (DoneReport ''scan'' 2 17) None"
  by code_simp

text \<open>What one worker remembers and reports, and what the master collects.\<close>

lemma runSlave_loop_error:
  "fst (runSlave_loop W q perr pt w) =
     (if perr \<noteq> None then perr else first_error (process_errors W w q))"
proof (induction q arbitrary: perr pt w)
  case Nil
  show ?case by simp
next
  case (Cons wu rest)
  obtain err w1 where p: "Worker_Process W w (wpath wu) (wsize wu) = (err, w1)"
    by (cases "Worker_Process W w (wpath wu) (wsize wu)") auto
  show ?case using p Cons.IH by auto
qed

lemma runSlave_loop_calls:
  "fst (snd (runSlave_loop W q perr pt w)) = pt @ map (\<lambda>wu. AddBytesFromFile (wsize wu)) q"
proof (induction q arbitrary: perr pt w)
  case Nil
  show ?case by simp
next
  case (Cons wu rest)
  obtain err w1 where p: "Worker_Process W w (wpath wu) (wsize wu) = (err, w1)"
    by (cases "Worker_Process W w (wpath wu) (wsize wu)") auto
  show ?case using p Cons.IH by simp
qed

lemma runSlave_error: "fst (runSlave W w q) = first_error (process_errors W w q)"
  using runSlave_loop_error[of W q None "[]" w]
  by (auto simp add: runSlave_def split: prod.splits)

lemma runSlave_calls: "fst (snd (runSlave W w q)) = map (\<lambda>wu. AddBytesFromFile (wsize wu)) q"
  using runSlave_loop_calls[of W q None "[]" w]
  by (auto simp add: runSlave_def split: prod.splits)

lemma collect_first_error:
  "collect errs perr = (if perr \<noteq> None then perr else first_error errs)"
  by (induction errs arbitrary: perr) auto

text \<open>Every unit sent is received by exactly one of the \<open>n\<close> workers.\<close>

lemma deliver_one:
  assumes "k < n"
  shows "(\<Sum>i\<leftarrow>[0..<n]. if k = i then {#x#} else {#}) = {#x#}"
proof -
  have "(\<Sum>i\<leftarrow>[0..<n]. if k = i then {#x#} else {#}) = (\<Sum>i\<in>{0..<n}. if k = i then {#x#} else {#})"
    by (simp add: interv_sum_list_conv_sum_set_nat)
  also have "\<dots> = {#x#}" using assms by (simp add: sum.delta')
  finally show ?thesis .
qed

lemma inbox_partition_aux:
  assumes "0 < n"
  shows "(\<Sum>i\<leftarrow>[0..<n]. mset (map snd (filter (\<lambda>(j, wu). recv j mod n = i) xs))) = mset (map snd xs)"
proof (induction xs)
  case Nil
  show ?case by (simp add: sum_list_0)
next
  case (Cons x xs)
  obtain j wu where x: "x = (j, wu)" by (cases x)
  have k: "recv j mod n < n" using assms by simp
  have "(\<Sum>i\<leftarrow>[0..<n]. mset (map snd (filter (\<lambda>(j, wu). recv j mod n = i) (x # xs)))) =
        (\<Sum>i\<leftarrow>[0..<n]. (if recv j mod n = i then {#wu#} else {#}) +
             mset (map snd (filter (\<lambda>(j, wu). recv j mod n = i) xs)))"
    unfolding x by (intro arg_cong[where f = sum_list] map_cong) auto
  also have "\<dots> = (\<Sum>i\<leftarrow>[0..<n]. if recv j mod n = i then {#wu#} else {#}) +
        (\<Sum>i\<leftarrow>[0..<n]. mset (map snd (filter (\<lambda>(j, wu). recv j mod n = i) xs)))"
    by (simp add: sum_list_addf)
  also have "\<dots> = {#wu#} + mset (map snd xs)"
    using deliver_one[OF k] Cons.IH by simp
  finally show ?case by (simp add: x)
qed

lemma inbox_partition:
  assumes "0 < n"
  shows "mset (concat (map (inbox recv n items) [0..<n])) = mset items"
proof -
  have "mset (concat (map (inbox recv n items) [0..<n])) =
        (\<Sum>i\<leftarrow>[0..<n]. mset (inbox recv n items i))"
    by (simp add: mset_concat comp_def)
  also have "\<dots> = mset (map snd (enumerate 0 items))"
    unfolding inbox_def by (rule inbox_partition_aux[OF assms])
  finally show ?thesis by simp
qed

lemma arrival_order_bound: "i \<in> set (arrival_order n arrival) \<Longrightarrow> i < n"
  by (auto simp: arrival_order_def)

text \<open>The order of arrival is an order of all \<open>n\<close> workers.\<close>

lemma arrival_order_permutation:
  "distinct (arrival_order n arrival) \<and> set (arrival_order n arrival) = {0..<n}"
  by (auto simp: arrival_order_def)

lemma paths_after_Work_passes:
  "paths_after (Work_passes P fs M W recv arrival workname paths m1) = paths"
  by (simp add: Work_passes_def Let_def split: prod.splits option.splits)

lemma Work_passes_workers:
  assumes count: "Work_count P fs M m1 paths1 \<lparr>numBytes = 0, numFiles = 0, commonRootPath = []\<rparr> = (cerr, cv)"
    and scanned: "m2 = Master_Scanned M m1 (numFiles cv) (numBytes cv) (commonRootPath cv)"
    and dispatch: "Work_dispatch P fs M m2 paths1 [] = (werr, items)"
    and workers: "0 < Master_NumWorkers M m2" and n: "n = nat (Master_NumWorkers M m2)"
    and finish: "Master_FinishUp M m2 = (ferr, m3)"
    and slaves: "slaves = map (\<lambda>i. runSlave W (Master_NewWorker M m2 (int i)) (inbox recv n items i)) [0..<n]"
  shows "Work_passes P fs M W recv arrival workname paths1 m1 =
     \<lparr>ending =
        (case ferr of
           Some e \<Rightarrow> Returned NoReport (Some e)
         | None \<Rightarrow>
             (case collect (map (\<lambda>i. fst (slaves ! i)) (arrival_order n arrival)) None of
                Some e \<Rightarrow> Returned (FailureReport workname e) (Some e)
              | None \<Rightarrow> Returned (DoneReport workname (numFiles cv) (numBytes cv)) None)),
      paths_after = paths1, master_after = m3,
      tracker_main = [SetTotalBytes (numBytes cv), SetTotalFiles (ucast (numFiles cv)), Finished],
      tracker_workers = map (\<lambda>s. fst (snd s)) slaves\<rparr>"
proof -
  have c: "cerr = None"
    using Work_count_nil[of P fs M m1 paths1 "\<lparr>numBytes = 0, numFiles = 0, commonRootPath = []\<rparr>"] count
    by simp
  have w: "werr = None" using Work_dispatch_nil[of P fs M m2 paths1 "[]"] dispatch by simp
  have pos: "\<not> Master_NumWorkers M m2 < 0" "nat (Master_NumWorkers M m2) \<noteq> 0"
    using workers by simp_all
  show ?thesis
    unfolding Work_passes_def count c
    using dispatch[unfolded w scanned] finish[unfolded scanned] pos[unfolded scanned]
    by (simp add: Let_def scanned[symmetric] n[symmetric] slaves[symmetric] split: option.splits)
qed

text \<open>
  Claim C2, as the code has it. Let \<^verbatim>\<open>Start\<close> and the rewriting of the paths succeed and
  let there be at least one worker; \<open>items\<close> are the units the dispatch pass sends. Each
  worker's exit error is the first error that its \<^verbatim>\<open>Process\<close> calls return. When
  \<^verbatim>\<open>FinishUp\<close> succeeds, \<^verbatim>\<open>Work\<close> returns the first exit error in the order of arrival on
  \<^verbatim>\<open>closeC\<close> (or no error when all are nil); when \<^verbatim>\<open>FinishUp\<close> fails, \<^verbatim>\<open>Work\<close> returns
  the error of \<^verbatim>\<open>FinishUp\<close> instead. Each worker calls \<^verbatim>\<open>AddBytesFromFile\<close> with the size of
  every unit it received, in order, whether \<^verbatim>\<open>Process\<close> failed or not, so that the calls
  of all workers together are exactly one call per dispatched unit.
\<close>

theorem Work_first_error:
  assumes start: "Master_Start M m = (None, m1)"
    and absolute: "Work_absolutize P paths = (paths1, None)"
    and count: "Work_count P fs M m1 paths1 \<lparr>numBytes = 0, numFiles = 0, commonRootPath = []\<rparr> = (cerr, cv)"
    and scanned: "m2 = Master_Scanned M m1 (numFiles cv) (numBytes cv) (commonRootPath cv)"
    and dispatch: "Work_dispatch P fs M m2 paths1 [] = (werr, items)"
    and workers: "0 < Master_NumWorkers M m2" and n: "n = nat (Master_NumWorkers M m2)"
    and finish: "Master_FinishUp M m2 = (ferr, m3)"
  shows "fst (runSlave W w q) = first_error (process_errors W w q) \<and>
         ending (Work P fs M W recv arrival workname paths m) =
           (case ferr of
              Some e \<Rightarrow> Returned NoReport (Some e)
            | None \<Rightarrow>
                (case first_error
                        (map (\<lambda>i. first_error (process_errors W (Master_NewWorker M m2 (int i)) (inbox recv n items i)))
                           (arrival_order n arrival)) of
                   Some e \<Rightarrow> Returned (FailureReport workname e) (Some e)
                 | None \<Rightarrow> Returned (DoneReport workname (numFiles cv) (numBytes cv)) None)) \<and>
         tracker_workers (Work P fs M W recv arrival workname paths m) =
           map (\<lambda>i. map (\<lambda>wu. AddBytesFromFile (wsize wu)) (inbox recv n items i)) [0..<n] \<and>
         mset (concat (tracker_workers (Work P fs M W recv arrival workname paths m))) =
           mset (map (\<lambda>wu. AddBytesFromFile (wsize wu)) items)"
proof -
  define slaves where
    "slaves = map (\<lambda>i. runSlave W (Master_NewWorker M m2 (int i)) (inbox recv n items i)) [0..<n]"
  have W: "Work P fs M W recv arrival workname paths m =
             Work_passes P fs M W recv arrival workname paths1 m1"
    using start absolute by (simp add: Work_def)
  note P = Work_passes_workers[OF count scanned dispatch workers n finish slaves_def, of arrival workname]
  have npos: "0 < n" using workers n by simp
  have exits: "map (\<lambda>i. fst (slaves ! i)) (arrival_order n arrival) =
        map (\<lambda>i. first_error (process_errors W (Master_NewWorker M m2 (int i)) (inbox recv n items i)))
           (arrival_order n arrival)"
  proof (rule map_cong[OF refl])
    fix i assume "i \<in> set (arrival_order n arrival)"
    hence "i < n" by (rule arrival_order_bound)
    thus "fst (slaves ! i) =
        first_error (process_errors W (Master_NewWorker M m2 (int i)) (inbox recv n items i))"
      by (simp add: slaves_def runSlave_error)
  qed
  have per_worker: "fst (runSlave W w q) = first_error (process_errors W w q)"
    by (rule runSlave_error)
  have returned: "ending (Work P fs M W recv arrival workname paths m) =
           (case ferr of
              Some e \<Rightarrow> Returned NoReport (Some e)
            | None \<Rightarrow>
                (case first_error
                        (map (\<lambda>i. first_error (process_errors W (Master_NewWorker M m2 (int i)) (inbox recv n items i)))
                           (arrival_order n arrival)) of
                   Some e \<Rightarrow> Returned (FailureReport workname e) (Some e)
                 | None \<Rightarrow> Returned (DoneReport workname (numFiles cv) (numBytes cv)) None))"
    unfolding W P by (simp add: collect_first_error exits cong: option.case_cong)
  have calls: "tracker_workers (Work P fs M W recv arrival workname paths m) =
           map (\<lambda>i. map (\<lambda>wu. AddBytesFromFile (wsize wu)) (inbox recv n items i)) [0..<n]"
    unfolding W P by (simp add: slaves_def runSlave_calls comp_def)
  have "concat (map (\<lambda>i. map (\<lambda>wu. AddBytesFromFile (wsize wu)) (inbox recv n items i)) [0..<n]) =
        map (\<lambda>wu. AddBytesFromFile (wsize wu)) (concat (map (inbox recv n items) [0..<n]))"
    by (simp add: map_concat comp_def)
  hence every: "mset (concat (tracker_workers (Work P fs M W recv arrival workname paths m))) =
           mset (map (\<lambda>wu. AddBytesFromFile (wsize wu)) items)"
    unfolding calls using inbox_partition[OF npos, of recv items] by simp
  from per_worker returned calls every show ?thesis by blast
qed

text \<open>
  A worker whose \<^verbatim>\<open>Process\<close> fails and a master whose \<^verbatim>\<open>FinishUp\<close> fails: \<^verbatim>\<open>Work\<close> returns
  the error of \<^verbatim>\<open>FinishUp\<close>, not the worker's exit error.
\<close>

theorem Work_first_error_counterexample:
  "fst (runSlave (worker_example ''/roms/m.zip'') 0 [\<lparr>wpath = ''/roms/m.zip'', wsize = 7\<rparr>]) =
     Some (ErrorString ''bad rom'') \<and>
   ending (Work (unix ([], None)) tree_example (master_example (Some (ErrorString ''finish'')) 2)
             (worker_example ''/roms/m.zip'') (\<lambda>j. j) [1, 0] ''scan'' [''/roms''] ()) =
     Returned NoReport (Some (ErrorString ''finish''))"
  by code_simp

text \<open>Two workers and two files, one of which fails; the second worker exits first.\<close>

theorem Work_first_error_witness:
  "ending (Work (unix ([], None)) tree_example (master_example None 2)
             (worker_example ''/roms/m.zip'') (\<lambda>j. j) [1, 0] ''scan'' [''/roms''] ()) =
     Returned (FailureReport ''scan'' (ErrorString ''bad rom'')) (Some (ErrorString ''bad rom'')) \<and>
   tracker_workers (Work (unix ([], None)) tree_example (master_example None 2)
             (worker_example ''/roms/m.zip'') (\<lambda>j. j) [1, 0] ''scan'' [''/roms''] ()) =
     [[AddBytesFromFile 7], [AddBytesFromFile 10]] \<and>
   mset (concat (tracker_workers (Work (unix ([], None)) tree_example (master_example None 2)
             (worker_example ''/roms/m.zip'') (\<lambda>j. j) [1, 0] ''scan'' [''/roms''] ()))) =
     {#AddBytesFromFile 7, AddBytesFromFile 10#}"
proof -
  let ?P = "unix ([], None)" and ?M = "master_example None 2" and ?W = "worker_example ''/roms/m.zip''"
  let ?cv = "\<lparr>numBytes = 17, numFiles = 2, commonRootPath = ''/roms''\<rparr>"
  let ?items = "[\<lparr>wpath = ''/roms/m.zip'', wsize = 7\<rparr>, \<lparr>wpath = ''/roms/z.zip'', wsize = 10\<rparr>]"
  have start: "Master_Start ?M () = (None, ())" by code_simp
  have absolute: "Work_absolutize ?P [''/roms''] = ([''/roms''], None)" by code_simp
  have count: "Work_count ?P tree_example ?M () [''/roms'']
      \<lparr>numBytes = 0, numFiles = 0, commonRootPath = []\<rparr> = (None, ?cv)" by code_simp
  have scanned: "() = Master_Scanned ?M () (numFiles ?cv) (numBytes ?cv) (commonRootPath ?cv)" by simp
  have dispatch: "Work_dispatch ?P tree_example ?M () [''/roms''] [] = (None, ?items)" by code_simp
  have workers: "0 < Master_NumWorkers ?M ()" by (simp add: master_example_def)
  have n: "2 = nat (Master_NumWorkers ?M ())" by (simp add: master_example_def)
  have finish: "Master_FinishUp ?M () = (None, ())" by (simp add: master_example_def)
  note T = Work_first_error[OF start absolute count scanned dispatch workers n finish,
      where W = ?W and recv = "\<lambda>j. j" and arrival = "[1, 0]" and workname = "''scan''"]
  have v1: "(case None of
              Some e \<Rightarrow> Returned NoReport (Some e)
            | None \<Rightarrow>
                (case first_error
                        (map (\<lambda>i. first_error (process_errors ?W (Master_NewWorker ?M () (int i)) (inbox (\<lambda>j. j) 2 ?items i)))
                           (arrival_order 2 [1, 0])) of
                   Some e \<Rightarrow> Returned (FailureReport ''scan'' e) (Some e)
                 | None \<Rightarrow> Returned (DoneReport ''scan'' (numFiles ?cv) (numBytes ?cv)) None)) =
            Returned (FailureReport ''scan'' (ErrorString ''bad rom'')) (Some (ErrorString ''bad rom''))"
    by code_simp
  have v2: "map (\<lambda>i. map (\<lambda>wu. AddBytesFromFile (wsize wu)) (inbox (\<lambda>j. j) 2 ?items i)) [0..<2] =
            [[AddBytesFromFile 7], [AddBytesFromFile 10]]"
    by code_simp
  have a: "ending (Work ?P tree_example ?M ?W (\<lambda>j. j) [1, 0] ''scan'' [''/roms''] ()) =
     Returned (FailureReport ''scan'' (ErrorString ''bad rom'')) (Some (ErrorString ''bad rom''))"
    using T[THEN conjunct2, THEN conjunct1] v1 by simp
  have b: "tracker_workers (Work ?P tree_example ?M ?W (\<lambda>j. j) [1, 0] ''scan'' [''/roms''] ()) =
     [[AddBytesFromFile 7], [AddBytesFromFile 10]]"
    using T[THEN conjunct2, THEN conjunct2, THEN conjunct1] v2 by simp
  have c: "mset (concat (tracker_workers (Work ?P tree_example ?M ?W (\<lambda>j. j) [1, 0] ''scan'' [''/roms''] ()))) =
     {#AddBytesFromFile 7, AddBytesFromFile 10#}"
    using T[THEN conjunct2, THEN conjunct2, THEN conjunct2] by simp
  from a b c show ?thesis by blast
qed

lemma Work_absolutize_all:
  assumes "\<forall>name\<in>set paths. \<not> IsAbs P name \<longrightarrow> snd (Abs P name) = None"
  shows "Work_absolutize P paths =
           (map (\<lambda>name. if IsAbs P name then name else fst (Abs P name)) paths, None)"
  using assms
proof (induction paths)
  case Nil
  show ?case by simp
next
  case (Cons name rest)
  show ?case
  proof (cases "IsAbs P name")
    case True
    then show ?thesis using Cons by simp
  next
    case False
    obtain a e where ab: "Abs P name = (a, e)" by (cases "Abs P name")
    have "e = None" using Cons.prems False ab by simp
    then show ?thesis using Cons False ab by simp
  qed
qed

text \<open>
  Claim C10. When \<^verbatim>\<open>Work\<close> gets as far as scanning (\<^verbatim>\<open>Start\<close> succeeds and \<^verbatim>\<open>Abs\<close>
  succeeds on the relative entries), the caller's slice \<open>paths\<close> holds, in place of
  every relative entry, its absolute form, and every absolute entry as it was; the
  counting pass and the dispatch pass run on the rewritten entries.
\<close>

theorem Work_rewrites_paths:
  assumes start: "Master_Start M m = (None, m1)"
    and absolute: "\<forall>name\<in>set paths. \<not> IsAbs P name \<longrightarrow> snd (Abs P name) = None"
  shows "paths_after (Work P fs M W recv arrival workname paths m) =
           map (\<lambda>name. if IsAbs P name then name else fst (Abs P name)) paths \<and>
         Work P fs M W recv arrival workname paths m =
           Work_passes P fs M W recv arrival workname
             (map (\<lambda>name. if IsAbs P name then name else fst (Abs P name)) paths) m1 \<and>
         (\<forall>k<length paths.
            paths_after (Work P fs M W recv arrival workname paths m) ! k =
              (if IsAbs P (paths ! k) then paths ! k else fst (Abs P (paths ! k))))"
proof -
  let ?paths1 = "map (\<lambda>name. if IsAbs P name then name else fst (Abs P name)) paths"
  have W: "Work P fs M W recv arrival workname paths m =
             Work_passes P fs M W recv arrival workname ?paths1 m1"
    using start Work_absolutize_all[OF absolute] by (simp add: Work_def)
  have after: "paths_after (Work P fs M W recv arrival workname paths m) = ?paths1"
    unfolding W by (rule paths_after_Work_passes)
  have each: "\<forall>k<length paths.
            paths_after (Work P fs M W recv arrival workname paths m) ! k =
              (if IsAbs P (paths ! k) then paths ! k else fst (Abs P (paths ! k)))"
    unfolding after by simp
  from after W each show ?thesis by blast
qed

text \<open>A relative and an absolute root, with the working directory \<open>/home/u\<close>.\<close>

theorem Work_rewrites_paths_witness:
  "paths_after (Work (unix (''/home/u'', None)) tree_example (master_example None 1) (worker_example [])
      (\<lambda>j. 0) [] ''scan'' [''roms/../sets'', ''/roms//x''] ()) = [''/home/u/sets'', ''/roms//x''] \<and>
   Work (unix (''/home/u'', None)) tree_example (master_example None 1) (worker_example [])
      (\<lambda>j. 0) [] ''scan'' [''roms/../sets'', ''/roms//x''] () =
   Work_passes (unix (''/home/u'', None)) tree_example (master_example None 1) (worker_example [])
      (\<lambda>j. 0) [] ''scan'' [''/home/u/sets'', ''/roms//x''] ()"
proof -
  let ?P = "unix (''/home/u'', None)" and ?M = "master_example None 1"
  have start: "Master_Start ?M () = (None, ())" by code_simp
  have absolute: "\<forall>name\<in>set [''roms/../sets'', ''/roms//x'']. \<not> IsAbs ?P name \<longrightarrow> snd (Abs ?P name) = None"
    by (simp add: unix_def unix_IsAbs_def unix_Abs_def)
  have v: "map (\<lambda>name. if IsAbs ?P name then name else fst (Abs ?P name)) [''roms/../sets'', ''/roms//x''] =
           [''/home/u/sets'', ''/roms//x'']"
    by code_simp
  note T = Work_rewrites_paths[OF start absolute, where fs = tree_example and W = "worker_example []"
      and recv = "\<lambda>j. 0" and arrival = "[]" and workname = "''scan''"]
  show ?thesis using T[THEN conjunct1] T[THEN conjunct2, THEN conjunct1] unfolding v by blast
qed

end
